theory Spec2Isabelle
  imports Main "HOL-Library.Word"
begin

unbundle bit_operations_syntax

section \<open>Data model (vfs\_tracking.h)\<close>

text \<open>
  The C integer types are words: \<open>uint32_t\<close> is \<open>32 word\<close>; \<open>int64_t\<close> and the \<open>int\<close>
  byte count of a write are words read through \<open>sint\<close>. Status codes are the numbers
  the sources define.
\<close>

type_synonym u32 = "32 word"
type_synonym i64 = "64 word"
type_synonym c_int = "32 word"

definition SQLITE_OK :: int where
  "SQLITE_OK = 0"

definition SQLITE_ERROR :: int where
  "SQLITE_ERROR = 1"

definition SQLITE_NOMEM :: int where
  "SQLITE_NOMEM = 7"

definition DEFAULT_PAGE_SIZE :: u32 where
  "DEFAULT_PAGE_SIZE = 4096"

text \<open>
  \<open>struct FileTracker\<close>. The two pointers \<open>filename\<close> and \<open>dirtyBitmap\<close> are \<open>None\<close>
  for \<open>NULL\<close> and otherwise the string and the allocated block of words they point to.
  The \<open>next\<close> field is the order of the list \<open>files\<close> below.
\<close>

record FileTracker =
  filename :: "string option"
  dirtyBitmap :: "u32 list option"
  bitmapSize :: u32
  totalPages :: u32
  pageSize :: u32
  isOpen :: int

text \<open>The part of \<open>sqlite3_vfs\<close> that the initialisation reads from the wrapped backend.\<close>

record sqlite3_vfs =
  szOsFile :: int
  mxPathname :: int

text \<open>
  \<open>VfsTrackingState\<close>, the global \<open>g_state\<close>. \<open>files\<close> is the linked list, head first.
\<close>

record VfsTrackingState =
  files :: "FileTracker list"
  pRealVfs :: "sqlite3_vfs option"
  defaultPageSize :: u32

text \<open>The static \<open>trackingVfs\<close> table, as far as \<open>vfs_tracking_init\<close> fills it in.\<close>

record tracking_vfs =
  tv_szOsFile :: int
  tv_mxPathname :: int
  tv_pAppData :: "sqlite3_vfs option"

text \<open>
  A \<open>FileTracker*\<close>. Nodes are only ever pushed at the head of the list and never
  unlinked one by one, so the address of a node is modelled by the number of nodes
  behind it in the chain: it stays the same when later nodes are pushed in front.
\<close>

type_synonym tracker_ptr = nat

text \<open>\<open>struct TrackingFile\<close>: whether the method table is installed, and the tracker.\<close>

record TrackingFile =
  pMethods :: bool
  pTracker :: "tracker_ptr option"

text \<open>
  What lies outside the sources: the SQLite host (\<open>sqlite3_vfs_find\<close>, the result of
  \<open>sqlite3_vfs_register\<close>, the size of a \<open>TrackingFile\<close>), and the C allocator, which
  may refuse each request (\<open>calloc\<close> of a node, \<open>strdup\<close> of its name, \<open>realloc\<close> of a
  bitmap, \<open>malloc\<close> of a result array) and hands out blocks with arbitrary contents
  (\<open>junk\<close> gives the word found at each index of fresh storage).
\<close>

record sqlite3_host =
  vfs_find :: "string option \<Rightarrow> sqlite3_vfs option"
  vfs_register_rc :: int
  sizeof_TrackingFile :: int

record allocator =
  calloc_ok :: bool
  strdup_ok :: bool
  realloc_ok :: bool
  malloc_ok :: bool
  junk :: "nat \<Rightarrow> u32"

text \<open>
  Ways in which a call leaves defined behaviour instead of returning. A tracker pointer
  dangles once \<open>vfs_tracking_shutdown\<close> has freed the list.
\<close>

datatype fault = DivisionByZero | SignedOverflow | OutOfBounds | NullDeref
  | LoopNeverExits | DanglingPointer

section \<open>Registry (vfs\_tracking.c)\<close>

text \<open>
  The messages printed to \<open>stdout\<close> and \<open>stderr\<close> are not modelled. Of the static
  \<open>trackingVfs\<close> the initialisation below keeps the three fields it computes; the method
  pointers it copies from the wrapped backend are read nowhere in this file.
\<close>

definition vfs_tracking_init ::
  "sqlite3_host \<Rightarrow> VfsTrackingState \<times> tracking_vfs \<Rightarrow> string option \<Rightarrow> u32
    \<Rightarrow> int \<times> VfsTrackingState \<times> tracking_vfs" where
  "vfs_tracking_init host g baseVfsName pgSize =
     (case g of (st, tv) \<Rightarrow>
      if pRealVfs st \<noteq> None then (SQLITE_OK, st, tv)
      else case vfs_find host baseVfsName of
             None \<Rightarrow> (SQLITE_ERROR, st, tv)
           | Some real \<Rightarrow>
               let st' = st\<lparr>pRealVfs := Some real, files := [],
                            defaultPageSize := (if pgSize > 0 then pgSize else DEFAULT_PAGE_SIZE)\<rparr>;
                   tv' = tv\<lparr>tv_szOsFile := sizeof_TrackingFile host + szOsFile real,
                            tv_mxPathname := mxPathname real,
                            tv_pAppData := Some real\<rparr>;
                   rc = vfs_register_rc host
               in if rc \<noteq> SQLITE_OK then (rc, st', tv') else (SQLITE_OK, st', tv'))"

text \<open>\<open>(filename[0] == '/') ? filename + 1 : filename\<close>\<close>

definition normalizedName :: "string \<Rightarrow> string" where
  "normalizedName fname =
     (case fname of [] \<Rightarrow> fname | c # rest \<Rightarrow> if c = CHR ''/'' then rest else fname)"

text \<open>
  The search loop of \<open>vfs_tracking_get_file\<close>: the first node whose name matches. The
  loop hands \<open>pFile->filename\<close> to \<open>strcmp\<close> without a test, so a node whose name is
  \<open>NULL\<close> ends the search in a null dereference when the loop reaches it.
\<close>

fun search_files :: "FileTracker list \<Rightarrow> string \<Rightarrow> fault + tracker_ptr option" where
  "search_files [] n = Inr None"
| "search_files (t # ts) n =
     (case filename t of
        None \<Rightarrow> Inl NullDeref
      | Some m \<Rightarrow> if m = n then Inr (Some (length ts)) else search_files ts n)"

text \<open>
  The node \<open>vfs_tracking_get_file\<close> creates. Its name is the result of \<open>strdup\<close>, which
  the source stores without a test: \<open>NULL\<close> when the copy cannot be allocated.
\<close>

definition new_tracker :: "allocator \<Rightarrow> VfsTrackingState \<Rightarrow> string \<Rightarrow> FileTracker" where
  "new_tracker a st n =
     \<lparr>filename = (if strdup_ok a then Some n else None), dirtyBitmap = None, bitmapSize = 0,
      totalPages = 0, pageSize = defaultPageSize st, isOpen = 0\<rparr>"

definition vfs_tracking_get_file ::
  "allocator \<Rightarrow> VfsTrackingState \<Rightarrow> string option
    \<Rightarrow> fault + (tracker_ptr option \<times> VfsTrackingState)" where
  "vfs_tracking_get_file a st fname_opt =
     (case fname_opt of
        None \<Rightarrow> Inr (None, st)
      | Some fname \<Rightarrow>
          (case search_files (files st) (normalizedName fname) of
             Inl e \<Rightarrow> Inl e
           | Inr (Some p) \<Rightarrow> Inr (Some p, st)
           | Inr None \<Rightarrow>
               if \<not> calloc_ok a then Inr (None, st)
               else Inr (Some (length (files st)),
                         st\<lparr>files := new_tracker a st (normalizedName fname) # files st\<rparr>)))"

text \<open>
  \<open>vfs_tracking_shutdown\<close> frees every node (its name and its bitmap when they are not
  \<open>NULL\<close>) and forgets the wrapped backend.
\<close>

definition vfs_tracking_shutdown :: "VfsTrackingState \<Rightarrow> VfsTrackingState" where
  "vfs_tracking_shutdown st = st\<lparr>files := [], pRealVfs := None\<rparr>"

text \<open>Reading and writing through a \<open>FileTracker*\<close>.\<close>

definition tracker_at :: "VfsTrackingState \<Rightarrow> tracker_ptr \<Rightarrow> FileTracker option" where
  "tracker_at st p =
     (if p < length (files st) then Some (files st ! (length (files st) - Suc p)) else None)"

definition tracker_put :: "VfsTrackingState \<Rightarrow> tracker_ptr \<Rightarrow> FileTracker \<Rightarrow> VfsTrackingState" where
  "tracker_put st p t =
     (if p < length (files st) then st\<lparr>files := (files st)[length (files st) - Suc p := t]\<rparr>
      else st)"

section \<open>Dirty bitmap\<close>

text \<open>
  Signed 64-bit division by the page size, which is unsigned 32-bit and so converts to a
  non-negative \<open>int64_t\<close>: C truncates towards zero.
\<close>

definition sdiv_trunc :: "int \<Rightarrow> int \<Rightarrow> int" where
  "sdiv_trunc x d = (if 0 \<le> x then x div d else - ((- x) div d))"

definition startPage_of :: "FileTracker \<Rightarrow> i64 \<Rightarrow> u32" where
  "startPage_of t offset = word_of_int (sdiv_trunc (sint offset) (uint (pageSize t)))"

definition endPage_of :: "FileTracker \<Rightarrow> i64 \<Rightarrow> c_int \<Rightarrow> u32" where
  "endPage_of t offset amount =
     word_of_int (sdiv_trunc (sint offset + sint amount - 1) (uint (pageSize t)))"

text \<open>
  \<open>realloc\<close> to \<open>n\<close> words keeps the old contents and leaves the rest uninitialised;
  \<open>memset\<close> to zero of \<open>cnt\<close> words from word \<open>start\<close> of a block that holds them.
  Blocks are lists of words: the byte counts the source passes (a word count times
  \<open>sizeof(uint32_t)\<close>) are taken to fit \<open>size_t\<close>.
\<close>

definition realloc_words :: "allocator \<Rightarrow> u32 list option \<Rightarrow> nat \<Rightarrow> u32 list" where
  "realloc_words a old n =
     (let xs = (case old of None \<Rightarrow> [] | Some bm \<Rightarrow> bm)
      in take n xs @ map (junk a) [length xs..<n])"

definition memset0 :: "u32 list \<Rightarrow> nat \<Rightarrow> nat \<Rightarrow> u32 list" where
  "memset0 xs start cnt = take start xs @ replicate cnt 0 @ drop (start + cnt) xs"

text \<open>
  The block \<open>if (requiredPages > tracker->totalPages) { ... }\<close>; \<open>None\<close> is the early
  return after a failed \<open>realloc\<close>.
\<close>

definition ensure_capacity :: "allocator \<Rightarrow> FileTracker \<Rightarrow> u32 \<Rightarrow> FileTracker option" where
  "ensure_capacity a t requiredPages =
     (if requiredPages > totalPages t then
        let newBitmapSize = (requiredPages + 31) div 32 in
        if newBitmapSize > bitmapSize t then
          (if realloc_ok a then
             Some (t\<lparr>dirtyBitmap :=
                       Some (memset0 (realloc_words a (dirtyBitmap t) (unat newBitmapSize))
                               (unat (bitmapSize t)) (unat (newBitmapSize - bitmapSize t))),
                     bitmapSize := newBitmapSize,
                     totalPages := requiredPages\<rparr>)
           else None)
        else Some (t\<lparr>totalPages := requiredPages\<rparr>)
      else Some t)"

text \<open>
  The loop \<open>for (i = startPage; i <= endPage; i++)\<close>. With \<open>endPage = 0xFFFFFFFF\<close> the
  condition holds for every \<open>i\<close>, so the loop has no exit.
\<close>

function mark_pages :: "u32 list \<Rightarrow> u32 \<Rightarrow> u32 \<Rightarrow> fault + u32 list" where
  "mark_pages bm i endPage =
     (if i \<le> endPage then
        (if unat (i div 32) < length bm then
           (if i = - 1 then Inl LoopNeverExits
            else mark_pages
                   (bm[unat (i div 32) := (bm ! unat (i div 32)) OR push_bit (unat (i mod 32)) 1])
                   (i + 1) endPage)
         else Inl OutOfBounds)
      else Inr bm)"
  by pat_completeness auto
termination
proof (relation "measure (\<lambda>(bm, i, endPage). 2 ^ 32 - unat i)")
  show "wf (measure (\<lambda>(bm, i, endPage). 2 ^ 32 - unat i))" by simp
next
  fix bm :: "u32 list" and i endPage :: u32
  assume "i \<noteq> - 1"
  then have "1 + i \<noteq> 0"
    by (metis add.commute add_eq_0_iff)
  then have "unat (i + 1) = Suc (unat i)"
    by (simp add: unatSuc add.commute)
  moreover have "unat i < 2 ^ 32"
    using unsigned_less [of i, where 'a = nat] by simp
  ultimately show
    "((bm[unat (i div 32) := (bm ! unat (i div 32)) OR push_bit (unat (i mod 32)) 1], i + 1, endPage),
      (bm, i, endPage)) \<in> measure (\<lambda>(bm, i, endPage). 2 ^ 32 - unat i)"
    by simp
qed

declare mark_pages.simps [simp del]

text \<open>
  \<open>vfs_tracking_mark_dirty\<close> on the pointee. \<open>Inr None\<close> is the return for a \<open>NULL\<close>
  tracker.
\<close>

definition mark_dirty_body :: "allocator \<Rightarrow> FileTracker \<Rightarrow> i64 \<Rightarrow> c_int \<Rightarrow> fault + FileTracker" where
  "mark_dirty_body a t offset amount =
     (if pageSize t = 0 then Inl DivisionByZero
      else if sint offset + sint amount > 2 ^ 63 - 1 then Inl SignedOverflow
      else
        let startPage = startPage_of t offset;
            endPage = endPage_of t offset amount;
            requiredPages = endPage + 1
        in case ensure_capacity a t requiredPages of
             None \<Rightarrow> Inr t
           | Some t1 \<Rightarrow>
               (case dirtyBitmap t1 of
                  None \<Rightarrow> if startPage \<le> endPage then Inl NullDeref else Inr t1
                | Some bm \<Rightarrow>
                    (case mark_pages bm startPage endPage of
                       Inl e \<Rightarrow> Inl e
                     | Inr bm' \<Rightarrow> Inr (t1\<lparr>dirtyBitmap := Some bm'\<rparr>))))"

definition vfs_tracking_mark_dirty ::
  "allocator \<Rightarrow> FileTracker option \<Rightarrow> i64 \<Rightarrow> c_int \<Rightarrow> fault + FileTracker option" where
  "vfs_tracking_mark_dirty a tracker offset amount =
     (case tracker of
        None \<Rightarrow> Inr None
      | Some t \<Rightarrow>
          if sint amount \<le> 0 then Inr (Some t)
          else (case mark_dirty_body a t offset amount of
                  Inl e \<Rightarrow> Inl e
                | Inr t' \<Rightarrow> Inr (Some t')))"

section \<open>Queries\<close>

text \<open>The test \<open>dirtyBitmap[i / 32] & (1U << (i % 32))\<close>.\<close>

definition bit_is_set :: "u32 list \<Rightarrow> u32 \<Rightarrow> bool" where
  "bit_is_set bm i = ((bm ! unat (i div 32)) AND push_bit (unat (i mod 32)) 1 \<noteq> 0)"

text \<open>The counting loop \<open>for (i = 0; i < totalPages; i++)\<close> of \<open>vfs_tracking_get_dirty_pages\<close>.\<close>

function count_dirty :: "u32 list \<Rightarrow> u32 \<Rightarrow> u32 \<Rightarrow> u32 \<Rightarrow> fault + u32" where
  "count_dirty bm npages i dirtyCount =
     (if i < npages then
        (if unat (i div 32) < length bm then
           count_dirty bm npages (i + 1) (if bit_is_set bm i then dirtyCount + 1 else dirtyCount)
         else Inl OutOfBounds)
      else Inr dirtyCount)"
  by pat_completeness auto
termination
proof (relation "measure (\<lambda>(bm, npages, i, dirtyCount). unat npages - unat i)")
  show "wf (measure (\<lambda>(bm, npages, i, dirtyCount). unat npages - unat i))" by simp
next
  fix bm :: "u32 list" and npages i dirtyCount :: u32
  assume "i < npages"
  then have "1 + i \<noteq> 0"
    by (metis eq_neg_iff_add_eq_0 verit_minus_simplify(4) word_order.extremum_strict)
  then have "unat (i + 1) = Suc (unat i)"
    by (simp add: unatSuc add.commute)
  moreover from \<open>i < npages\<close> have "unat i < unat npages"
    by (simp add: word_less_nat_alt)
  ultimately show "((bm, npages, i + 1, if bit_is_set bm i then dirtyCount + 1 else dirtyCount),
              (bm, npages, i, dirtyCount))
             \<in> measure (\<lambda>(bm, npages, i, dirtyCount). unat npages - unat i)"
    by simp
qed

declare count_dirty.simps [simp del]

text \<open>
  The filling loop: \<open>pages\<close> is the block of \<open>dirtyCount\<close> words from \<open>malloc\<close>, written
  at \<open>pageIndex\<close>.
\<close>

function fill_pages :: "u32 list \<Rightarrow> u32 \<Rightarrow> u32 \<Rightarrow> u32 list \<Rightarrow> u32 \<Rightarrow> fault + u32 list" where
  "fill_pages bm npages i pages pageIndex =
     (if i < npages then
        (if unat (i div 32) < length bm then
           (if bit_is_set bm i then
              (if unat pageIndex < length pages
               then fill_pages bm npages (i + 1) (pages[unat pageIndex := i]) (pageIndex + 1)
               else Inl OutOfBounds)
            else fill_pages bm npages (i + 1) pages pageIndex)
         else Inl OutOfBounds)
      else Inr pages)"
  by pat_completeness auto
termination
proof (relation "measure (\<lambda>(bm, npages, i, pages, pageIndex). unat npages - unat i)")
  show "wf (measure (\<lambda>(bm, npages, i, pages, pageIndex). unat npages - unat i))" by simp
next
  fix bm pages :: "u32 list" and npages i pageIndex :: u32
  assume "i < npages"
  then have "1 + i \<noteq> 0"
    by (metis eq_neg_iff_add_eq_0 verit_minus_simplify(4) word_order.extremum_strict)
  then have "unat (i + 1) = Suc (unat i)"
    by (simp add: unatSuc add.commute)
  moreover from \<open>i < npages\<close> have "unat i < unat npages"
    by (simp add: word_less_nat_alt)
  ultimately have *: "unat npages - unat (i + 1) < unat npages - unat i"
    by simp
  then show "((bm, npages, i + 1, pages[unat pageIndex := i], pageIndex + 1),
              (bm, npages, i, pages, pageIndex))
             \<in> measure (\<lambda>(bm, npages, i, pages, pageIndex). unat npages - unat i)"
    by simp
  from * show "((bm, npages, i + 1, pages, pageIndex), (bm, npages, i, pages, pageIndex))
             \<in> measure (\<lambda>(bm, npages, i, pages, pageIndex). unat npages - unat i)"
    by simp
qed

declare fill_pages.simps [simp del]

text \<open>
  \<open>vfs_tracking_get_dirty_pages\<close>. The two output arguments are \<open>None\<close> when the
  pointer is \<open>NULL\<close> and otherwise hold what the pointer points to; the result gives their
  contents after the call.
\<close>

definition vfs_tracking_get_dirty_pages ::
  "allocator \<Rightarrow> VfsTrackingState \<Rightarrow> string option \<Rightarrow> u32 option \<Rightarrow> u32 list option option
    \<Rightarrow> fault + (int \<times> u32 option \<times> u32 list option option \<times> VfsTrackingState)" where
  "vfs_tracking_get_dirty_pages a st fname_opt pPageCount ppPages =
     (if fname_opt = None \<or> pPageCount = None \<or> ppPages = None
      then Inr (SQLITE_ERROR, pPageCount, ppPages, st)
      else
        case vfs_tracking_get_file a st fname_opt of
          Inl e \<Rightarrow> Inl e
        | Inr (tracker, st') \<Rightarrow>
        (case tracker of
           None \<Rightarrow> Inr (SQLITE_OK, Some 0, Some None, st')
         | Some p \<Rightarrow>
             (case tracker_at st' p of
                None \<Rightarrow> Inl DanglingPointer
              | Some t \<Rightarrow>
                  (case dirtyBitmap t of
                     None \<Rightarrow> Inr (SQLITE_OK, Some 0, Some None, st')
                   | Some bm \<Rightarrow>
                       (case count_dirty bm (totalPages t) 0 0 of
                          Inl e \<Rightarrow> Inl e
                        | Inr dirtyCount \<Rightarrow>
                            if dirtyCount = 0 then Inr (SQLITE_OK, Some 0, Some None, st')
                            else if \<not> malloc_ok a then Inr (SQLITE_NOMEM, pPageCount, ppPages, st')
                            else
                              (case fill_pages bm (totalPages t) 0
                                      (map (junk a) [0..<unat dirtyCount]) 0 of
                                 Inl e \<Rightarrow> Inl e
                               | Inr pages \<Rightarrow>
                                   Inr (SQLITE_OK, Some dirtyCount, Some (Some pages), st')))))))"

text \<open>\<open>vfs_tracking_reset_dirty\<close>: the \<open>memset\<close> covers \<open>bitmapSize\<close> words.\<close>

definition vfs_tracking_reset_dirty ::
  "allocator \<Rightarrow> VfsTrackingState \<Rightarrow> string option \<Rightarrow> fault + (int \<times> VfsTrackingState)" where
  "vfs_tracking_reset_dirty a st fname_opt =
     (if fname_opt = None then Inr (SQLITE_ERROR, st)
      else
        case vfs_tracking_get_file a st fname_opt of
          Inl e \<Rightarrow> Inl e
        | Inr (tracker, st') \<Rightarrow>
        (case tracker of
           None \<Rightarrow> Inr (SQLITE_OK, st')
         | Some p \<Rightarrow>
             (case tracker_at st' p of
                None \<Rightarrow> Inl DanglingPointer
              | Some t \<Rightarrow>
                  (case dirtyBitmap t of
                     None \<Rightarrow> Inr (SQLITE_OK, st')
                   | Some bm \<Rightarrow>
                       if unat (bitmapSize t) \<le> length bm
                       then Inr (SQLITE_OK,
                                 tracker_put st' p
                                   (t\<lparr>dirtyBitmap := Some (memset0 bm 0 (unat (bitmapSize t)))\<rparr>))
                       else Inl OutOfBounds))))"

section \<open>Storage decorator\<close>

text \<open>
  The wrapped backend is outside the sources: each function takes the result code
  \<open>real_rc\<close> of the call it delegates.
\<close>

definition trackingOpen ::
  "allocator \<Rightarrow> VfsTrackingState \<Rightarrow> string option \<Rightarrow> int \<Rightarrow> TrackingFile
    \<Rightarrow> fault + (int \<times> TrackingFile \<times> VfsTrackingState)" where
  "trackingOpen a st zName real_rc p =
     (if real_rc = SQLITE_OK then
        (if zName \<noteq> None then
           (case vfs_tracking_get_file a st zName of
              Inl e \<Rightarrow> Inl e
            | Inr (tracker, st') \<Rightarrow>
             (case tracker of
                None \<Rightarrow> Inr (real_rc, p\<lparr>pMethods := True, pTracker := None\<rparr>, st')
              | Some q \<Rightarrow>
                  (case tracker_at st' q of
                     None \<Rightarrow> Inl DanglingPointer
                   | Some t \<Rightarrow>
                       Inr (real_rc, p\<lparr>pMethods := True, pTracker := Some q\<rparr>,
                            tracker_put st' q (t\<lparr>isOpen := 1\<rparr>)))))
         else Inr (real_rc, p\<lparr>pMethods := True, pTracker := None\<rparr>, st))
      else Inr (real_rc, p, st))"

definition fileClose ::
  "VfsTrackingState \<Rightarrow> TrackingFile \<Rightarrow> int \<Rightarrow> fault + (int \<times> VfsTrackingState)" where
  "fileClose st p real_rc =
     (case pTracker p of
        None \<Rightarrow> Inr (real_rc, st)
      | Some q \<Rightarrow>
          (case tracker_at st q of
             None \<Rightarrow> Inl DanglingPointer
           | Some t \<Rightarrow> Inr (real_rc, tracker_put st q (t\<lparr>isOpen := 0\<rparr>))))"

text \<open>The call \<open>vfs_tracking_mark_dirty(p->pTracker, ...)\<close> with a tracker pointer.\<close>

definition mark_dirty_at ::
  "allocator \<Rightarrow> VfsTrackingState \<Rightarrow> tracker_ptr option \<Rightarrow> i64 \<Rightarrow> c_int
    \<Rightarrow> fault + VfsTrackingState" where
  "mark_dirty_at a st tracker offset amount =
     (case tracker of
        None \<Rightarrow> Inr st
      | Some q \<Rightarrow>
          (case tracker_at st q of
             None \<Rightarrow> Inl DanglingPointer
           | Some t \<Rightarrow>
               (case vfs_tracking_mark_dirty a (Some t) offset amount of
                  Inl e \<Rightarrow> Inl e
                | Inr None \<Rightarrow> Inr st
                | Inr (Some t') \<Rightarrow> Inr (tracker_put st q t'))))"

definition fileWrite ::
  "allocator \<Rightarrow> VfsTrackingState \<Rightarrow> TrackingFile \<Rightarrow> c_int \<Rightarrow> i64 \<Rightarrow> int
    \<Rightarrow> fault + (int \<times> VfsTrackingState)" where
  "fileWrite a st p iAmt iOfst real_rc =
     (if real_rc = SQLITE_OK \<and> pTracker p \<noteq> None then
        (case mark_dirty_at a st (pTracker p) iOfst iAmt of
           Inl e \<Rightarrow> Inl e
         | Inr st' \<Rightarrow> Inr (real_rc, st'))
      else Inr (real_rc, st))"

definition fileTruncate ::
  "allocator \<Rightarrow> VfsTrackingState \<Rightarrow> TrackingFile \<Rightarrow> i64 \<Rightarrow> int
    \<Rightarrow> fault + (int \<times> VfsTrackingState)" where
  "fileTruncate a st p newSize real_rc =
     (if real_rc = SQLITE_OK \<and> pTracker p \<noteq> None then
        (case mark_dirty_at a st (pTracker p) newSize 1 of
           Inl e \<Rightarrow> Inl e
         | Inr st' \<Rightarrow> Inr (real_rc, st'))
      else Inr (real_rc, st))"

section \<open>Observations and invariants\<close>

text \<open>Bit \<open>j\<close> of the bitmap storage, and whether page \<open>j\<close> is reported dirty.\<close>

definition bitmap_bit :: "u32 list \<Rightarrow> nat \<Rightarrow> bool" where
  "bitmap_bit bm j = (j div 32 < length bm \<and> bit (bm ! (j div 32)) (j mod 32))"

definition raw_bit :: "FileTracker \<Rightarrow> nat \<Rightarrow> bool" where
  "raw_bit t j = (case dirtyBitmap t of None \<Rightarrow> False | Some bm \<Rightarrow> bitmap_bit bm j)"

definition page_dirty :: "FileTracker \<Rightarrow> nat \<Rightarrow> bool" where
  "page_dirty t j = (j < unat (totalPages t) \<and> raw_bit t j)"

text \<open>
  The shape every tracker built by this code has: the storage holds \<open>bitmapSize\<close> words,
  covers \<open>totalPages\<close> bits, and no bit at or beyond \<open>totalPages\<close> is set.
\<close>

definition wf_tracker :: "FileTracker \<Rightarrow> bool" where
  "wf_tracker t =
     (case dirtyBitmap t of
        None \<Rightarrow> bitmapSize t = 0 \<and> totalPages t = 0
      | Some bm \<Rightarrow>
          length bm = unat (bitmapSize t) \<and> unat (totalPages t) \<le> 32 * length bm \<and>
          (\<forall>w < length bm. drop_bit (unat (totalPages t) - 32 * w) (bm ! w) = 0))"

text \<open>The dirty pages of a tracker, in ascending order.\<close>

definition dirty_pages :: "FileTracker \<Rightarrow> nat list" where
  "dirty_pages t = filter (page_dirty t) [0..<unat (totalPages t)]"

text \<open>The tracker a file name stands for in a registry state, if there is one.\<close>

definition named_tracker :: "VfsTrackingState \<Rightarrow> string \<Rightarrow> FileTracker option" where
  "named_tracker st fname =
     (case search_files (files st) (normalizedName fname) of
        Inr (Some p) \<Rightarrow> tracker_at st p
      | _ \<Rightarrow> None)"


text \<open>A tracker with every word of its bitmap storage zero and all else as it was.\<close>

definition cleared :: "FileTracker \<Rightarrow> FileTracker" where
  "cleared t = t\<lparr>dirtyBitmap := map_option (\<lambda>bm. replicate (length bm) 0) (dirtyBitmap t)\<rparr>"

definition wf_state :: "VfsTrackingState \<Rightarrow> bool" where
  "wf_state st = list_all wf_tracker (files st)"

text \<open>A registry in which every tracker holds its name: no copy of a name has failed.\<close>

definition named_state :: "VfsTrackingState \<Rightarrow> bool" where
  "named_state st = list_all (\<lambda>t. filename t \<noteq> None) (files st)"

section \<open>Concrete inputs\<close>

text \<open>A host that knows one backend, registry states, allocators and trackers used below.\<close>

definition ex_vfs :: sqlite3_vfs where
  "ex_vfs = \<lparr>szOsFile = 16, mxPathname = 512\<rparr>"

definition ex_host :: sqlite3_host where
  "ex_host = \<lparr>vfs_find = (\<lambda>n. if n = Some ''memfs'' then Some ex_vfs else None),
              vfs_register_rc = 0, sizeof_TrackingFile = 12\<rparr>"

definition ex_tv :: tracking_vfs where
  "ex_tv = \<lparr>tv_szOsFile = 0, tv_mxPathname = 0, tv_pAppData = None\<rparr>"

definition ex_state0 :: VfsTrackingState where
  "ex_state0 = \<lparr>files = [], pRealVfs = None, defaultPageSize = 0\<rparr>"

definition ex_state :: VfsTrackingState where
  "ex_state = \<lparr>files = [], pRealVfs = Some ex_vfs, defaultPageSize = 4096\<rparr>"

definition ex_alloc :: allocator where
  "ex_alloc = \<lparr>calloc_ok = True, strdup_ok = True, realloc_ok = True, malloc_ok = True,
                junk = (\<lambda>i. 0xDEADBEEF)\<rparr>"

definition ex_no_mem :: allocator where
  "ex_no_mem = \<lparr>calloc_ok = False, strdup_ok = False, realloc_ok = False, malloc_ok = False,
                 junk = (\<lambda>i. 0xDEADBEEF)\<rparr>"

definition ex_tracker :: FileTracker where
  "ex_tracker = \<lparr>filename = Some ''db.sqlite'', dirtyBitmap = None, bitmapSize = 0, totalPages = 0,
                 pageSize = 4096, isOpen = 1\<rparr>"

definition ex_tracker_p0 :: FileTracker where
  "ex_tracker_p0 = \<lparr>filename = Some ''db.sqlite'', dirtyBitmap = Some [1], bitmapSize = 1, totalPages = 1,
                    pageSize = 4096, isOpen = 1\<rparr>"

definition ex_tracker_p01 :: FileTracker where
  "ex_tracker_p01 = \<lparr>filename = Some ''db.sqlite'', dirtyBitmap = Some [3], bitmapSize = 1, totalPages = 2,
                    pageSize = 4096, isOpen = 1\<rparr>"

definition ex_tracker_p100 :: FileTracker where
  "ex_tracker_p100 = \<lparr>filename = Some ''db.sqlite'', dirtyBitmap = Some [1, 0, 0, 16], bitmapSize = 4,
                    totalPages = 101, pageSize = 4096, isOpen = 1\<rparr>"

definition ex_tracker_b :: FileTracker where
  "ex_tracker_b = \<lparr>filename = Some ''b.db'', dirtyBitmap = None, bitmapSize = 0, totalPages = 0,
                   pageSize = 4096, isOpen = 0\<rparr>"

definition ex_state2 :: VfsTrackingState where
  "ex_state2 = \<lparr>files = [ex_tracker_b, ex_tracker_p0], pRealVfs = Some ex_vfs, defaultPageSize = 4096\<rparr>"

definition ex_file :: TrackingFile where
  "ex_file = \<lparr>pMethods = True, pTracker = Some 0\<rparr>"

definition ex_fresh :: FileTracker where
  "ex_fresh = \<lparr>filename = Some ''db.sqlite'', dirtyBitmap = None, bitmapSize = 0, totalPages = 0,
               pageSize = 4096, isOpen = 0\<rparr>"

definition ex_state_reset :: VfsTrackingState where
  "ex_state_reset = \<lparr>files = [ex_tracker_b, ex_tracker_p0\<lparr>dirtyBitmap := Some [0]\<rparr>],
                     pRealVfs = Some ex_vfs, defaultPageSize = 4096\<rparr>"

definition ex_state3 :: VfsTrackingState where
  "ex_state3 = \<lparr>files = [\<lparr>filename = Some ''new.db'', dirtyBitmap = None, bitmapSize = 0, totalPages = 0,
                           pageSize = 4096, isOpen = 0\<rparr>, ex_tracker_b, ex_tracker_p0],
                pRealVfs = Some ex_vfs, defaultPageSize = 4096\<rparr>"

definition ex_tracker_p02 :: FileTracker where
  "ex_tracker_p02 = \<lparr>filename = Some ''db.sqlite'', dirtyBitmap = Some [5], bitmapSize = 1, totalPages = 3,
                     pageSize = 4096, isOpen = 1\<rparr>"

definition ex_state1 :: VfsTrackingState where
  "ex_state1 = \<lparr>files = [ex_tracker], pRealVfs = Some ex_vfs, defaultPageSize = 4096\<rparr>"

definition ex_state1_p0 :: VfsTrackingState where
  "ex_state1_p0 = \<lparr>files = [ex_tracker_p0], pRealVfs = Some ex_vfs, defaultPageSize = 4096\<rparr>"

definition ex_state2_p02 :: VfsTrackingState where
  "ex_state2_p02 = \<lparr>files = [ex_tracker_b, ex_tracker_p02], pRealVfs = Some ex_vfs,
                    defaultPageSize = 4096\<rparr>"

definition ex_anonymous :: TrackingFile where
  "ex_anonymous = \<lparr>pMethods = True, pTracker = None\<rparr>"

definition ex_state0f :: VfsTrackingState where
  "ex_state0f = \<lparr>files = [ex_fresh], pRealVfs = Some ex_vfs, defaultPageSize = 4096\<rparr>"

definition ex_state1_closed :: VfsTrackingState where
  "ex_state1_closed = \<lparr>files = [ex_tracker_p0\<lparr>isOpen := 0\<rparr>], pRealVfs = Some ex_vfs,
                       defaultPageSize = 4096\<rparr>"

text \<open>
  An allocator that grants the node of a new tracker and refuses the copy of its name,
  and the registry with the nameless tracker that a lookup then leaves behind.
\<close>

definition ex_no_strdup :: allocator where
  "ex_no_strdup = \<lparr>calloc_ok = True, strdup_ok = False, realloc_ok = True, malloc_ok = True,
                    junk = (\<lambda>i. 0xDEADBEEF)\<rparr>"

definition ex_nameless :: FileTracker where
  "ex_nameless = \<lparr>filename = None, dirtyBitmap = None, bitmapSize = 0, totalPages = 0,
                   pageSize = 4096, isOpen = 0\<rparr>"

definition ex_state_nameless :: VfsTrackingState where
  "ex_state_nameless = \<lparr>files = [ex_nameless], pRealVfs = Some ex_vfs, defaultPageSize = 4096\<rparr>"

section \<open>Bits and words\<close>

lemma unat_div32: "unat (i div 32 :: u32) = unat i div 32"
  by (simp add: unat_div)

lemma unat_mod32: "unat (i mod 32 :: u32) = unat i mod 32"
  by (simp add: unat_mod)

lemma unat_succ: "i \<noteq> - 1 \<Longrightarrow> unat (i + 1 :: u32) = Suc (unat i)"
proof -
  assume "i \<noteq> - 1"
  then have "1 + i \<noteq> 0"
    by (metis add.commute add_eq_0_iff)
  then show ?thesis
    by (simp add: unatSuc add.commute)
qed

lemma bit_is_set_iff: "bit_is_set bm i \<longleftrightarrow> bit (bm ! (unat i div 32)) (unat i mod 32)"
  by (simp add: bit_is_set_def unat_div32 unat_mod32 and_exp_eq_0_iff_not_bit)

lemma nat_index_eq: "(j div 32 = i div 32 \<and> j mod 32 = i mod 32) \<longleftrightarrow> j = (i::nat)"
  by (metis div_mult_mod_eq)

lemma set_bit_word: "k < 32 \<Longrightarrow> bit ((x :: u32) OR 2 ^ k) m \<longleftrightarrow> bit x m \<or> m = k"
  by (auto simp: bit_or_iff bit_exp_iff)

lemma bitmap_bit_update:
  assumes "i div 32 < length bm"
  shows "bitmap_bit (bm[i div 32 := (bm ! (i div 32)) OR push_bit (i mod 32) 1]) j
         \<longleftrightarrow> bitmap_bit bm j \<or> j = i"
proof (cases "j div 32 = i div 32")
  case True
  then show ?thesis
    using assms nat_index_eq [of j i] by (auto simp: bitmap_bit_def set_bit_word)
next
  case False
  then show ?thesis
    by (auto simp: bitmap_bit_def)
qed

lemma mark_pages_Inr:
  "mark_pages bm i e = Inr bm' \<Longrightarrow>
   length bm' = length bm \<and> (\<forall>j. bitmap_bit bm' j \<longleftrightarrow> bitmap_bit bm j \<or> (unat i \<le> j \<and> j \<le> unat e))"
proof (induction bm i e arbitrary: bm' rule: mark_pages.induct)
  case (1 bm i e)
  show ?case
  proof (cases "i \<le> e")
    case False
    then have "unat e < unat i" by (simp add: word_le_nat_alt)
    with "1.prems" False show ?thesis
      by (subst (asm) mark_pages.simps) auto
  next
    case True
    let ?bm1 = "bm[unat (i div 32) := (bm ! unat (i div 32)) OR push_bit (unat (i mod 32)) 1]"
    from True "1.prems" have inb: "unat (i div 32) < length bm" and nmax: "i \<noteq> - 1"
      and rec: "mark_pages ?bm1 (i + 1) e = Inr bm'"
      by (subst (asm) mark_pages.simps, auto split: if_splits)+
    from "1.IH" [OF True inb nmax rec]
    have len: "length bm' = length ?bm1"
      and bits: "\<And>j. bitmap_bit bm' j \<longleftrightarrow> bitmap_bit ?bm1 j \<or> (unat (i + 1) \<le> j \<and> j \<le> unat e)"
      by auto
    have upd: "\<And>j. bitmap_bit ?bm1 j \<longleftrightarrow> bitmap_bit bm j \<or> j = unat i"
      using inb bitmap_bit_update [of "unat i" bm] by (simp add: unat_div32 unat_mod32)
    from True have le: "unat i \<le> unat e" by (simp add: word_le_nat_alt)
    show ?thesis
      using len bits upd le unat_succ [OF nmax] by auto
  qed
qed

lemma mark_pages_returns:
  "e \<noteq> - 1 \<Longrightarrow> (i \<le> e \<longrightarrow> unat e div 32 < length bm) \<Longrightarrow> \<exists>bm'. mark_pages bm i e = Inr bm'"
proof (induction bm i e rule: mark_pages.induct)
  case (1 bm i e)
  show ?case
  proof (cases "i \<le> e")
    case False
    then show ?thesis by (subst mark_pages.simps) simp
  next
    case True
    let ?bm1 = "bm[unat (i div 32) := (bm ! unat (i div 32)) OR push_bit (unat (i mod 32)) 1]"
    from True have le: "unat i \<le> unat e" by (simp add: word_le_nat_alt)
    with True "1.prems" have inb: "unat (i div 32) < length bm"
      by (simp add: unat_div32)
    from True "1.prems" have nmax: "i \<noteq> - 1"
      by (metis word_order.extremum_uniqueI)
    have "\<exists>bm'. mark_pages ?bm1 (i + 1) e = Inr bm'"
      using "1.IH" [OF True inb nmax] "1.prems" True by simp
    then show ?thesis
      using True inb nmax by (subst mark_pages.simps) simp
  qed
qed

section \<open>Growing the bitmap\<close>

lemma bitmap_bit_append_zeros: "bitmap_bit (xs @ replicate m 0) j \<longleftrightarrow> bitmap_bit xs j"
  by (auto simp: bitmap_bit_def nth_append)

lemma grow_block_Some:
  "length xs < n \<Longrightarrow>
   memset0 (realloc_words a (Some xs) n) (length xs) (n - length xs) = xs @ replicate (n - length xs) 0"
  by (simp add: memset0_def realloc_words_def)

lemma grow_block_None:
  "memset0 (realloc_words a None n) 0 n = replicate n 0"
  by (simp add: memset0_def realloc_words_def)

lemma clear_above_iff:
  fixes bm :: "u32 list"
  shows "(\<forall>w < length bm. drop_bit (T - 32 * w) (bm ! w) = 0) \<longleftrightarrow> (\<forall>j. bitmap_bit bm j \<longrightarrow> j < T)"
proof
  assume L: "\<forall>w < length bm. drop_bit (T - 32 * w) (bm ! w) = 0"
  show "\<forall>j. bitmap_bit bm j \<longrightarrow> j < T"
  proof (intro allI impI, rule ccontr)
    fix j assume b: "bitmap_bit bm j" and "\<not> j < T"
    moreover have "j = 32 * (j div 32) + j mod 32"
      by simp
    ultimately have "T - 32 * (j div 32) \<le> j mod 32"
      by arith
    then obtain m where m: "j mod 32 = (T - 32 * (j div 32)) + m"
      using le_Suc_ex by blast
    from b have "j div 32 < length bm" and "bit (bm ! (j div 32)) (j mod 32)"
      by (simp_all add: bitmap_bit_def)
    then have "bit (drop_bit (T - 32 * (j div 32)) (bm ! (j div 32))) m"
      by (simp add: bit_drop_bit_eq m)
    with L \<open>j div 32 < length bm\<close> show False by simp
  qed
next
  assume R: "\<forall>j. bitmap_bit bm j \<longrightarrow> j < T"
  show "\<forall>w < length bm. drop_bit (T - 32 * w) (bm ! w) = 0"
  proof (intro allI impI, rule bit_eqI)
    fix w m assume w: "w < length bm"
    have "\<not> bit (bm ! w) ((T - 32 * w) + m)"
    proof
      assume b: "bit (bm ! w) ((T - 32 * w) + m)"
      then have lt: "(T - 32 * w) + m < 32"
        using bit_imp_le_length [of "bm ! w" "(T - 32 * w) + m"] by simp
      let ?j = "32 * w + ((T - 32 * w) + m)"
      from lt have "?j div 32 = w" "?j mod 32 = (T - 32 * w) + m" by simp_all
      with b w have "bitmap_bit bm ?j" by (simp add: bitmap_bit_def)
      with R have "?j < T" by blast
      then show False by arith
    qed
    then show "bit (drop_bit (T - 32 * w) (bm ! w)) m = bit (0 :: u32) m"
      by (simp add: bit_drop_bit_eq)
  qed
qed

lemma wf_tracker_alt:
  "wf_tracker t \<longleftrightarrow>
     (case dirtyBitmap t of
        None \<Rightarrow> bitmapSize t = 0 \<and> totalPages t = 0
      | Some bm \<Rightarrow>
          length bm = unat (bitmapSize t) \<and> unat (totalPages t) \<le> 32 * length bm \<and>
          (\<forall>j. bitmap_bit bm j \<longrightarrow> j < unat (totalPages t)))"
  by (simp add: wf_tracker_def clear_above_iff split: option.splits)

lemma wf_raw_bit_below: "wf_tracker t \<Longrightarrow> raw_bit t j \<Longrightarrow> j < unat (totalPages t)"
  by (auto simp: wf_tracker_alt raw_bit_def split: option.splits)

text \<open>What the capacity block does to a well-formed tracker.\<close>

lemma ensure_capacity_Some:
  assumes wf: "wf_tracker t" and ec: "ensure_capacity a t req = Some t1"
  shows "(\<forall>j. raw_bit t1 j \<longleftrightarrow> raw_bit t j) \<and>
         totalPages t1 = (if totalPages t < req then req else totalPages t) \<and>
         filename t1 = filename t \<and> pageSize t1 = pageSize t \<and> isOpen t1 = isOpen t \<and>
         (case dirtyBitmap t1 of None \<Rightarrow> bitmapSize t1 = 0
          | Some bm1 \<Rightarrow> length bm1 = unat (bitmapSize t1)) \<and>
         unat (bitmapSize t) \<le> unat (bitmapSize t1) \<and>
         (totalPages t < req \<longrightarrow> unat ((req + 31) div 32) \<le> unat (bitmapSize t1))"
proof (cases "totalPages t < req")
  case False
  with ec have "t1 = t" by (simp add: ensure_capacity_def)
  with wf False show ?thesis
    by (auto simp: wf_tracker_alt split: option.splits)
next
  case grow: True
  let ?new = "(req + 31) div 32"
  show ?thesis
  proof (cases "bitmapSize t < ?new")
    case False
    with ec grow have "t1 = t\<lparr>totalPages := req\<rparr>"
      by (simp add: ensure_capacity_def Let_def)
    with wf grow False show ?thesis
      by (auto simp: wf_tracker_alt raw_bit_def word_le_nat_alt word_less_nat_alt split: option.splits)
  next
    case True
    then have lt: "unat (bitmapSize t) < unat ?new"
      by (simp add: word_less_nat_alt)
    from True have sub: "unat (?new - bitmapSize t) = unat ?new - unat (bitmapSize t)"
      by (simp add: unat_sub word_le_nat_alt word_less_nat_alt)
    from ec grow True have ok: "realloc_ok a"
      and t1: "t1 = t\<lparr>dirtyBitmap :=
                       Some (memset0 (realloc_words a (dirtyBitmap t) (unat ?new))
                               (unat (bitmapSize t)) (unat (?new - bitmapSize t))),
                     bitmapSize := ?new, totalPages := req\<rparr>"
      by (auto simp: ensure_capacity_def Let_def split: if_splits)
    show ?thesis
    proof (cases "dirtyBitmap t")
      case None
      with wf have "bitmapSize t = 0" by (simp add: wf_tracker_alt)
      with None t1 have "dirtyBitmap t1 = Some (replicate (unat ?new) 0)"
        by (simp add: grow_block_None)
      with None t1 grow lt show ?thesis
        by (auto simp: raw_bit_def bitmap_bit_def)
    next
      case (Some bm)
      with wf have len: "length bm = unat (bitmapSize t)" by (simp add: wf_tracker_alt)
      with Some t1 lt sub
      have "dirtyBitmap t1 = Some (bm @ replicate (unat ?new - length bm) 0)"
        using grow_block_Some [of bm "unat ?new" a] by simp
      with Some t1 grow lt len show ?thesis
        by (auto simp: raw_bit_def bitmap_bit_append_zeros)
    qed
  qed
qed

section \<open>Marking a range\<close>

lemma mark_dirty_body_cases:
  assumes md: "mark_dirty_body a t offset amount = Inr t'"
  obtains (failed) "ensure_capacity a t (endPage_of t offset amount + 1) = None" "t' = t"
  | (nobitmap) t1 where "ensure_capacity a t (endPage_of t offset amount + 1) = Some t1"
      "dirtyBitmap t1 = None" "t' = t1" "\<not> startPage_of t offset \<le> endPage_of t offset amount"
  | (marked) t1 bm bm' where "ensure_capacity a t (endPage_of t offset amount + 1) = Some t1"
      "dirtyBitmap t1 = Some bm"
      "mark_pages bm (startPage_of t offset) (endPage_of t offset amount) = Inr bm'"
      "t' = t1\<lparr>dirtyBitmap := Some bm'\<rparr>"
  using md
  by (auto simp: mark_dirty_body_def Let_def split: if_splits option.splits sum.splits)

lemma mark_dirty_body_Inr:
  assumes wf: "wf_tracker t" and md: "mark_dirty_body a t offset amount = Inr t'"
  shows "(\<forall>j. raw_bit t j \<longrightarrow> raw_bit t' j) \<and>
         (\<forall>j. raw_bit t' j \<longrightarrow> raw_bit t j \<or>
              (unat (startPage_of t offset) \<le> j \<and> j \<le> unat (endPage_of t offset amount))) \<and>
         unat (totalPages t) \<le> unat (totalPages t') \<and>
         filename t' = filename t \<and> pageSize t' = pageSize t \<and> isOpen t' = isOpen t"
  using md
proof (cases rule: mark_dirty_body_cases)
  case failed
  then show ?thesis by simp
next
  case (nobitmap t1)
  note ec = ensure_capacity_Some [OF wf nobitmap(1)]
  from ec have "unat (totalPages t) \<le> unat (totalPages t1)"
    by (auto simp: word_less_nat_alt)
  with ec nobitmap(3) show ?thesis by simp
next
  case (marked t1 bm bm')
  note ec = ensure_capacity_Some [OF wf marked(1)]
  note m = mark_pages_Inr [OF marked(3)]
  from ec have tp: "unat (totalPages t) \<le> unat (totalPages t1)"
    by (auto simp: word_less_nat_alt)
  have r1: "\<And>j. raw_bit t1 j = bitmap_bit bm j"
    using marked(2) by (simp add: raw_bit_def)
  have r': "\<And>j. raw_bit t' j = bitmap_bit bm' j"
    using marked(4) by (simp add: raw_bit_def)
  from ec have rt: "\<And>j. raw_bit t1 j = raw_bit t j" by simp
  have "\<And>j. raw_bit t' j \<longleftrightarrow> raw_bit t j \<or>
              (unat (startPage_of t offset) \<le> j \<and> j \<le> unat (endPage_of t offset amount))"
    using m r1 r' rt by simp
  moreover have "filename t' = filename t \<and> pageSize t' = pageSize t \<and> isOpen t' = isOpen t"
    using ec marked(4) by simp
  moreover have "unat (totalPages t) \<le> unat (totalPages t')"
    using tp marked(4) by simp
  ultimately show ?thesis by simp
qed

lemma unat_word_of_int_u32: "0 \<le> k \<Longrightarrow> k < 2 ^ 32 \<Longrightarrow> unat (word_of_int k :: u32) = nat k"
  by (simp add: unat_eq_nat_uint uint_word_of_int)

lemma page_numbers:
  assumes nz: "pageSize t \<noteq> 0" and off: "0 \<le> sint offset" and amt: "0 < sint amount"
    and bound: "(sint offset + sint amount - 1) div uint (pageSize t) < 2 ^ 32 - 32"
  shows "unat (startPage_of t offset) = nat (sint offset div uint (pageSize t))"
    and "unat (endPage_of t offset amount) = nat ((sint offset + sint amount - 1) div uint (pageSize t))"
    and "0 \<le> sint offset div uint (pageSize t)"
    and "sint offset div uint (pageSize t) \<le> (sint offset + sint amount - 1) div uint (pageSize t)"
proof -
  let ?ps = "uint (pageSize t)"
  from nz have ps: "0 < ?ps"
    by (simp add: uint_0_iff order_less_le)
  from off ps show s0: "0 \<le> sint offset div ?ps"
    by (simp add: pos_imp_zdiv_nonneg_iff)
  from off amt ps show le: "sint offset div ?ps \<le> (sint offset + sint amount - 1) div ?ps"
    by (intro zdiv_mono1) simp_all
  from s0 le bound show "unat (startPage_of t offset) = nat (sint offset div ?ps)"
    using off by (simp add: startPage_of_def sdiv_trunc_def unat_word_of_int_u32)
  from s0 le bound show "unat (endPage_of t offset amount) = nat ((sint offset + sint amount - 1) div ?ps)"
    using off amt by (simp add: endPage_of_def sdiv_trunc_def unat_word_of_int_u32)
qed

lemma required_pages:
  fixes e :: u32
  assumes "unat e + 32 < 2 ^ 32"
  shows "e \<noteq> - 1" and "unat (e + 1) = Suc (unat e)"
    and "unat ((e + 1 + 31) div 32) = (unat e + 32) div 32"
proof -
  from assms show ne: "e \<noteq> - 1"
    by (auto simp: unsigned_minus_1_eq_mask mask_eq_exp_minus_1)
  then show s: "unat (e + 1) = Suc (unat e)"
    by (rule unat_succ)
  have "unat (e + 1 + 31) = unat (e + 1) + unat (31 :: u32)"
    using assms s by (subst unat_add_lem [THEN iffD1]) simp_all
  then show "unat ((e + 1 + 31) div 32) = (unat e + 32) div 32"
    using s by (simp add: unat_div)
qed

lemma ensure_capacity_result:
  "realloc_ok a \<Longrightarrow> \<exists>t1. ensure_capacity a t req = Some t1"
  by (simp add: ensure_capacity_def Let_def)

text \<open>A mark whose last page is below the wrap-around of the page counter.\<close>

lemma mark_dirty_body_ok:
  assumes wf: "wf_tracker t" and alloc: "realloc_ok a"
    and nz: "pageSize t \<noteq> 0" and nov: "sint offset + sint amount \<le> 2 ^ 63 - 1"
    and room: "unat (endPage_of t offset amount) + 32 < 2 ^ 32"
    and ord: "unat (startPage_of t offset) \<le> unat (endPage_of t offset amount)"
  shows "\<exists>t'. mark_dirty_body a t offset amount = Inr t' \<and> wf_tracker t' \<and>
           (\<forall>j. page_dirty t' j \<longleftrightarrow> page_dirty t j \<or>
              (unat (startPage_of t offset) \<le> j \<and> j \<le> unat (endPage_of t offset amount))) \<and>
           unat (totalPages t') = max (unat (totalPages t)) (Suc (unat (endPage_of t offset amount))) \<and>
           filename t' = filename t \<and> pageSize t' = pageSize t \<and> isOpen t' = isOpen t"
proof -
  let ?s = "startPage_of t offset" and ?e = "endPage_of t offset amount"
  note rp = required_pages [OF room]
  from ensure_capacity_result [OF alloc] obtain t1 where t1: "ensure_capacity a t (?e + 1) = Some t1"
    by blast
  note ec = ensure_capacity_Some [OF wf t1]
  have tp1: "unat (totalPages t1) = max (unat (totalPages t)) (Suc (unat ?e))"
    using ec rp(2) by (auto simp: word_less_nat_alt)
  have cover: "unat ?e < 32 * unat (bitmapSize t1)"
  proof (cases "totalPages t < ?e + 1")
    case True
    with ec have "(unat ?e + 32) div 32 \<le> unat (bitmapSize t1)"
      using rp(3) by simp
    then show ?thesis by arith
  next
    case False
    then have "Suc (unat ?e) \<le> unat (totalPages t)"
      using rp(2) by (simp add: word_less_nat_alt)
    moreover from False t1 have "t1 = t" by (simp add: ensure_capacity_def)
    moreover have "unat (totalPages t) \<le> 32 * unat (bitmapSize t)"
      using wf by (auto simp: wf_tracker_alt split: option.splits)
    ultimately show ?thesis by simp
  qed
  then obtain bm where bm: "dirtyBitmap t1 = Some bm" and len: "length bm = unat (bitmapSize t1)"
    using ec by (cases "dirtyBitmap t1") auto
  from cover len have "unat ?e div 32 < length bm" by simp
  with mark_pages_returns [OF rp(1), of ?s bm] obtain bm' where mp: "mark_pages bm ?s ?e = Inr bm'"
    by blast
  note m = mark_pages_Inr [OF mp]
  let ?t' = "t1\<lparr>dirtyBitmap := Some bm'\<rparr>"
  have res: "mark_dirty_body a t offset amount = Inr ?t'"
    using nz nov t1 bm mp by (simp add: mark_dirty_body_def Let_def)
  have raw: "\<And>j. raw_bit ?t' j \<longleftrightarrow> raw_bit t j \<or> (unat ?s \<le> j \<and> j \<le> unat ?e)"
    using mark_dirty_body_Inr [OF wf res] m ec bm by (simp add: raw_bit_def)
  have below: "\<And>j. raw_bit t j \<Longrightarrow> j < unat (totalPages t)"
    using wf by (rule wf_raw_bit_below)
  have pd: "page_dirty ?t' j \<longleftrightarrow> page_dirty t j \<or> (unat ?s \<le> j \<and> j \<le> unat ?e)" for j
    using raw [of j] below [of j] tp1 by (auto simp: page_dirty_def)
  have wf': "wf_tracker ?t'"
  proof -
    have "unat (totalPages t1) \<le> 32 * length bm'"
    proof (cases "totalPages t < ?e + 1")
      case True
      then show ?thesis using tp1 cover m len by (simp add: word_less_nat_alt rp(2))
    next
      case False
      with t1 have "t1 = t" by (simp add: ensure_capacity_def)
      then show ?thesis
        using wf bm m by (auto simp: wf_tracker_alt)
    qed
    moreover have "\<And>j. bitmap_bit bm' j \<Longrightarrow> j < unat (totalPages t1)"
    proof -
      fix j assume "bitmap_bit bm' j"
      then have "raw_bit ?t' j" by (simp add: raw_bit_def)
      with raw have "raw_bit t j \<or> (unat ?s \<le> j \<and> j \<le> unat ?e)" by simp
      with below [of j] tp1 show "j < unat (totalPages t1)" by auto
    qed
    ultimately show ?thesis
      using m len by (simp add: wf_tracker_alt)
  qed
  show ?thesis
    using res wf' pd tp1 ec by (intro exI [of _ ?t']) simp
qed

section \<open>Registry lookups and pointers\<close>

lemma tracker_at_put_same:
  "p < length (files st) \<Longrightarrow> tracker_at (tracker_put st p t) p = Some t"
  by (simp add: tracker_at_def tracker_put_def)

lemma tracker_at_put_other:
  "q \<noteq> p \<Longrightarrow> tracker_at (tracker_put st p t) q = tracker_at st q"
  by (auto simp: tracker_at_def tracker_put_def nth_list_update)

lemma files_tracker_put: "length (files (tracker_put st p t)) = length (files st)"
  by (simp add: tracker_put_def)

lemma tracker_at_Some_valid: "tracker_at st p = Some t \<Longrightarrow> p < length (files st)"
  by (simp add: tracker_at_def split: if_splits)

lemma tracker_at_push:
  "tracker_at (st\<lparr>files := t # files st\<rparr>) q =
     (if q = length (files st) then Some t else tracker_at st q)"
  by (auto simp: tracker_at_def Suc_diff_Suc less_Suc_eq)

lemma tracker_put_same: "tracker_at st p = Some t \<Longrightarrow> tracker_put st p t = st"
  by (auto simp: tracker_at_def tracker_put_def split: if_splits)

lemma search_files_Some:
  "search_files ts n = Inr (Some p) \<Longrightarrow>
   p < length ts \<and> filename (ts ! (length ts - Suc p)) = Some n"
proof (induction ts)
  case Nil
  then show ?case by simp
next
  case (Cons t ts)
  show ?case
  proof (cases "filename t = Some n")
    case True
    with Cons.prems show ?thesis by simp
  next
    case False
    with Cons.prems have s: "search_files ts n = Inr (Some p)"
      by (simp split: option.splits if_splits)
    from Cons.IH [OF s] show ?thesis
      by (simp add: Suc_diff_Suc less_Suc_eq)
  qed
qed

lemma search_files_update:
  "i < length ts \<Longrightarrow> filename t' = filename (ts ! i) \<Longrightarrow>
   search_files (ts[i := t']) n = search_files ts n"
proof (induction ts arbitrary: i)
  case Nil
  then show ?case by simp
next
  case (Cons t ts)
  then show ?case by (cases i) (simp_all split: option.splits)
qed

text \<open>The search returns on a registry in which every tracker holds its name.\<close>

lemma search_files_returns:
  "list_all (\<lambda>t. filename t \<noteq> None) ts \<Longrightarrow> \<exists>r. search_files ts n = Inr r"
  by (induction ts) auto

lemma search_tracker_at:
  "search_files (files st) n = Inr (Some p) \<Longrightarrow> \<exists>t. tracker_at st p = Some t \<and> filename t = Some n"
  using search_files_Some [of "files st" n p] by (simp add: tracker_at_def)

lemma search_tracker_put:
  "tracker_at st p = Some t \<Longrightarrow> filename t' = filename t \<Longrightarrow>
   search_files (files (tracker_put st p t')) n = search_files (files st) n"
  by (auto simp: tracker_at_def tracker_put_def search_files_update split: if_splits)

text \<open>The three ways \<open>vfs_tracking_get_file\<close> returns for a name.\<close>

lemma get_file_cases:
  assumes "vfs_tracking_get_file a st (Some f) = Inr (r, st')"
  obtains (found) p t where "search_files (files st) (normalizedName f) = Inr (Some p)" "r = Some p"
      "st' = st" "tracker_at st p = Some t" "filename t = Some (normalizedName f)"
  | (no_memory) "search_files (files st) (normalizedName f) = Inr None" "\<not> calloc_ok a"
      "r = None" "st' = st"
  | (created) "search_files (files st) (normalizedName f) = Inr None" "calloc_ok a"
      "r = Some (length (files st))"
      "st' = st\<lparr>files := new_tracker a st (normalizedName f) # files st\<rparr>"
      "tracker_at st' (length (files st)) = Some (new_tracker a st (normalizedName f))"
proof (cases "search_files (files st) (normalizedName f)")
  case (Inl e)
  with assms show ?thesis by (simp add: vfs_tracking_get_file_def)
next
  case (Inr s)
  show ?thesis
  proof (cases s)
    case None
    show ?thesis
    proof (cases "calloc_ok a")
      case True
      with None Inr assms have "r = Some (length (files st))"
        "st' = st\<lparr>files := new_tracker a st (normalizedName f) # files st\<rparr>"
        by (simp_all add: vfs_tracking_get_file_def)
      moreover from this
      have "tracker_at st' (length (files st)) = Some (new_tracker a st (normalizedName f))"
        by (simp add: tracker_at_push)
      ultimately show ?thesis using None Inr True by (intro created) simp_all
    next
      case False
      with None Inr assms have "r = None" "st' = st"
        by (simp_all add: vfs_tracking_get_file_def)
      with None Inr False show ?thesis by (intro no_memory) simp_all
    qed
  next
    case (Some p)
    with Inr assms have "r = Some p" "st' = st"
      by (simp_all add: vfs_tracking_get_file_def)
    moreover from Some Inr search_tracker_at [of st "normalizedName f" p] obtain t
      where "tracker_at st p = Some t" "filename t = Some (normalizedName f)" by auto
    ultimately show ?thesis using Some Inr by (intro found [of p t]) simp_all
  qed
qed

lemma get_file_returns:
  assumes "named_state st"
  shows "\<exists>r st'. vfs_tracking_get_file a st fo = Inr (r, st')"
proof (cases fo)
  case None
  then show ?thesis by (simp add: vfs_tracking_get_file_def)
next
  case (Some f)
  from assms search_files_returns [of "files st" "normalizedName f"]
  obtain s where "search_files (files st) (normalizedName f) = Inr s"
    by (auto simp: named_state_def)
  with Some show ?thesis
    by (cases s) (simp_all add: vfs_tracking_get_file_def)
qed

lemma get_file_keeps:
  assumes "vfs_tracking_get_file a st fo = Inr (r, st')" and "tracker_at st q = Some t"
  shows "tracker_at st' q = Some t"
proof (cases fo)
  case None
  with assms show ?thesis by (simp add: vfs_tracking_get_file_def)
next
  case (Some f)
  from assms(1) [unfolded Some] show ?thesis
  proof (cases rule: get_file_cases)
    case (found p t)
    with assms(2) show ?thesis by simp
  next
    case no_memory
    with assms(2) show ?thesis by simp
  next
    case created
    with assms(2) tracker_at_Some_valid [OF assms(2)] show ?thesis
      by (simp add: tracker_at_push)
  qed
qed

text \<open>The tracker a lookup returns is none of those that hold another name.\<close>

lemma get_file_target:
  assumes "vfs_tracking_get_file a st (Some f) = Inr (Some p, st0)"
    and "tracker_at st q = Some t" and "filename t \<noteq> Some (normalizedName f)"
  shows "q \<noteq> p"
  using assms(1)
proof (cases rule: get_file_cases)
  case (found p' u)
  with assms(2,3) show ?thesis by auto
next
  case no_memory
  then show ?thesis by simp
next
  case created
  with tracker_at_Some_valid [OF assms(2)] show ?thesis by simp
qed

lemma get_file_valid:
  assumes "vfs_tracking_get_file a st (Some f) = Inr (Some p, st0)"
  obtains t where "tracker_at st0 p = Some t"
  using assms by (cases rule: get_file_cases) auto

lemma search_get_file:
  "search_files (files st) (normalizedName f) = Inr (Some p) \<Longrightarrow>
   vfs_tracking_get_file a st (Some f) = Inr (Some p, st)"
  by (simp add: vfs_tracking_get_file_def)

text \<open>
  After a lookup that returned a tracker holding its name, the search finds that tracker,
  so every later lookup under a name with the same normalized name returns it again,
  whatever the allocator does then.
\<close>

lemma get_file_search:
  assumes "vfs_tracking_get_file a st (Some f) = Inr (Some p, st1)"
    and "tracker_at st1 p = Some t" and "filename t \<noteq> None"
  shows "search_files (files st1) (normalizedName f) = Inr (Some p)"
  using assms(1)
proof (cases rule: get_file_cases)
  case (found q u)
  then show ?thesis by simp
next
  case no_memory
  then show ?thesis by simp
next
  case created
  with assms(2,3) have "strdup_ok a"
    by (auto simp: new_tracker_def split: if_splits)
  with created show ?thesis
    by (simp add: new_tracker_def)
qed

lemma get_file_again:
  assumes "vfs_tracking_get_file a st (Some f1) = Inr (Some p, st1)"
    and "normalizedName f1 = normalizedName f2"
    and "tracker_at st1 p = Some t" and "filename t \<noteq> None"
  shows "vfs_tracking_get_file a' st1 (Some f2) = Inr (Some p, st1)"
  using get_file_search [OF assms(1,3,4)] assms(2) by (intro search_get_file) simp

text \<open>Opening and closing touch nothing but the open flag.\<close>

lemma trackingOpen_cases:
  assumes "trackingOpen a st zName real_rc h = Inr (rc, h', st')"
  obtains (untracked) "rc = real_rc" "st' = st" "real_rc \<noteq> SQLITE_OK \<or> zName = None"
  | (no_tracker) f where "rc = real_rc" "real_rc = SQLITE_OK" "zName = Some f"
      "vfs_tracking_get_file a st (Some f) = Inr (None, st')" "pTracker h' = None"
  | (tracked) f q st0 t where "rc = real_rc" "real_rc = SQLITE_OK" "zName = Some f"
      "vfs_tracking_get_file a st (Some f) = Inr (Some q, st0)" "tracker_at st0 q = Some t"
      "st' = tracker_put st0 q (t\<lparr>isOpen := 1\<rparr>)" "pTracker h' = Some q"
proof (cases "real_rc = SQLITE_OK \<and> zName \<noteq> None")
  case False
  with assms have "rc = real_rc" "st' = st"
    by (auto simp: trackingOpen_def split: if_splits)
  with False show ?thesis by (intro untracked) auto
next
  case True
  then obtain f where f: "zName = Some f" and ok: "real_rc = SQLITE_OK" by auto
  from assms f ok obtain r st0 where g: "vfs_tracking_get_file a st (Some f) = Inr (r, st0)"
    by (cases "vfs_tracking_get_file a st (Some f)") (auto simp: trackingOpen_def)
  show ?thesis
  proof (cases r)
    case None
    with assms f ok g have "rc = real_rc" "st' = st0" "pTracker h' = None"
      by (auto simp: trackingOpen_def)
    with f ok g None show ?thesis by (intro no_tracker) auto
  next
    case (Some q)
    from g [unfolded Some] obtain t where t: "tracker_at st0 q = Some t"
      by (rule get_file_valid)
    with assms f ok g Some have "rc = real_rc" "st' = tracker_put st0 q (t\<lparr>isOpen := 1\<rparr>)"
      "pTracker h' = Some q"
      by (auto simp: trackingOpen_def)
    with f ok g Some t show ?thesis by (intro tracked) auto
  qed
qed

lemma trackingOpen_frame:
  assumes "trackingOpen a st zName real_rc h = Inr (rc, h', st')" and "tracker_at st q = Some t"
  shows "\<exists>v. tracker_at st' q = Some (t\<lparr>isOpen := v\<rparr>) \<and>
             ((\<forall>f. zName = Some f \<longrightarrow> filename t \<noteq> Some (normalizedName f)) \<longrightarrow> v = isOpen t)"
  using assms(1)
proof (cases rule: trackingOpen_cases)
  case untracked
  with assms(2) show ?thesis by (intro exI [of _ "isOpen t"]) simp
next
  case (no_tracker f)
  from get_file_keeps [OF no_tracker(4) assms(2)] show ?thesis
    by (intro exI [of _ "isOpen t"]) simp
next
  case (tracked f p st0 u)
  note keep = get_file_keeps [OF tracked(4) assms(2)]
  show ?thesis
  proof (cases "q = p")
    case True
    with keep tracked have "u = t" by simp
    with True tracked tracker_at_Some_valid [OF tracked(5)]
    have "tracker_at st' q = Some (t\<lparr>isOpen := 1\<rparr>)"
      by (simp add: tracker_at_put_same)
    moreover from get_file_target [OF tracked(4) assms(2)] True
    have "filename t = Some (normalizedName f)" by blast
    ultimately show ?thesis using tracked(3) by (intro exI [of _ 1]) simp
  next
    case False
    with keep tracked have "tracker_at st' q = Some t"
      by (simp add: tracker_at_put_other)
    then show ?thesis by (intro exI [of _ "isOpen t"]) simp
  qed
qed

lemma isOpen_same: "\<exists>v. (t :: FileTracker) = t\<lparr>isOpen := v\<rparr>"
  by (rule exI [of _ "isOpen t"]) simp

lemma fileClose_frame:
  assumes "fileClose st h real_rc = Inr (rc, st')"
  shows "rc = real_rc \<and> (pTracker h \<noteq> Some q \<longrightarrow> tracker_at st' q = tracker_at st q) \<and>
         (\<forall>t. tracker_at st q = Some t \<longrightarrow> (\<exists>v. tracker_at st' q = Some (t\<lparr>isOpen := v\<rparr>)))"
proof (cases "pTracker h")
  case None
  with assms have "rc = real_rc" "st' = st" by (simp_all add: fileClose_def)
  then show ?thesis
    using isOpen_same by auto
next
  case (Some p)
  with assms obtain u where u: "tracker_at st p = Some u" and rc: "rc = real_rc"
    and st': "st' = tracker_put st p (u\<lparr>isOpen := 0\<rparr>)"
    by (auto simp: fileClose_def split: option.splits)
  have "\<exists>v. tracker_at st' q = Some (t\<lparr>isOpen := v\<rparr>)" if "tracker_at st q = Some t" for t
  proof (cases "q = p")
    case True
    with that u st' tracker_at_Some_valid [OF u]
    have "tracker_at st' q = Some (t\<lparr>isOpen := 0\<rparr>)"
      by (simp add: tracker_at_put_same)
    then show ?thesis by blast
  next
    case False
    with that st' have "tracker_at st' q = Some t" by (simp add: tracker_at_put_other)
    then show ?thesis by (intro exI [of _ "isOpen t"]) simp
  qed
  with Some rc st' show ?thesis
    by (auto simp: tracker_at_put_other)
qed

lemma mark_dirty_at_frame:
  assumes "mark_dirty_at a st (Some p) offset amount = Inr st'" and "q \<noteq> p"
  shows "tracker_at st' q = tracker_at st q"
  using assms
  by (auto simp: mark_dirty_at_def tracker_at_put_other split: option.splits sum.splits)

lemma reset_dirty_cases:
  assumes "vfs_tracking_reset_dirty a st (Some f) = Inr (rc, st')"
  obtains (no_tracker) "rc = SQLITE_OK" "vfs_tracking_get_file a st (Some f) = Inr (None, st')"
  | (no_bitmap) p t where "rc = SQLITE_OK"
      "vfs_tracking_get_file a st (Some f) = Inr (Some p, st')"
      "tracker_at st' p = Some t" "dirtyBitmap t = None"
  | (cleared) p st0 t bm where "rc = SQLITE_OK"
      "vfs_tracking_get_file a st (Some f) = Inr (Some p, st0)"
      "tracker_at st0 p = Some t" "dirtyBitmap t = Some bm" "unat (bitmapSize t) \<le> length bm"
      "st' = tracker_put st0 p (t\<lparr>dirtyBitmap := Some (memset0 bm 0 (unat (bitmapSize t)))\<rparr>)"
proof -
  from assms obtain r st0 where g: "vfs_tracking_get_file a st (Some f) = Inr (r, st0)"
    by (cases "vfs_tracking_get_file a st (Some f)") (auto simp: vfs_tracking_reset_dirty_def)
  show ?thesis
  proof (cases r)
    case None
    with assms g have "rc = SQLITE_OK" "st' = st0"
      by (simp_all add: vfs_tracking_reset_dirty_def)
    with g None show ?thesis by (intro no_tracker) auto
  next
    case (Some p)
    from g [unfolded Some] obtain t where t: "tracker_at st0 p = Some t"
      by (rule get_file_valid)
    show ?thesis
    proof (cases "dirtyBitmap t")
      case None
      with assms g Some t have "rc = SQLITE_OK" "st' = st0"
        by (simp_all add: vfs_tracking_reset_dirty_def)
      with g Some t None show ?thesis by (intro no_bitmap) auto
    next
      case bm: (Some bm)
      with assms g Some t have "unat (bitmapSize t) \<le> length bm" "rc = SQLITE_OK"
        "st' = tracker_put st0 p (t\<lparr>dirtyBitmap := Some (memset0 bm 0 (unat (bitmapSize t)))\<rparr>)"
        by (simp_all add: vfs_tracking_reset_dirty_def split: if_splits)
      with g Some t bm show ?thesis by (intro cleared) auto
    qed
  qed
qed

lemma reset_dirty_frame:
  assumes "vfs_tracking_reset_dirty a st (Some f) = Inr (rc, st')"
    and "tracker_at st q = Some t" and "filename t \<noteq> Some (normalizedName f)"
  shows "tracker_at st' q = Some t"
  using assms(1)
proof (cases rule: reset_dirty_cases)
  case no_tracker
  from get_file_keeps [OF no_tracker(2) assms(2)] show ?thesis .
next
  case (no_bitmap p u)
  from get_file_keeps [OF no_bitmap(2) assms(2)] show ?thesis .
next
  case (cleared p st0 u bm)
  note keep = get_file_keeps [OF cleared(2) assms(2)]
  from get_file_target [OF cleared(2) assms(2,3)] have "q \<noteq> p" .
  with keep cleared(6) show ?thesis by (simp add: tracker_at_put_other)
qed

lemma fileClose_search:
  assumes "fileClose st h real_rc = Inr (rc, st')"
  shows "search_files (files st') n = search_files (files st) n \<and>
         length (files st') = length (files st)"
proof (cases "pTracker h")
  case None
  with assms show ?thesis by (simp add: fileClose_def)
next
  case (Some p)
  with assms obtain u where u: "tracker_at st p = Some u"
    and st': "st' = tracker_put st p (u\<lparr>isOpen := 0\<rparr>)"
    by (auto simp: fileClose_def split: option.splits)
  from search_tracker_put [OF u, of "u\<lparr>isOpen := 0\<rparr>" n] st' show ?thesis
    by (simp add: files_tracker_put)
qed

section \<open>Enumerating dirty pages\<close>

lemma bit_is_set_bitmap_bit:
  "unat i div 32 < length bm \<Longrightarrow> bit_is_set bm i \<longleftrightarrow> bitmap_bit bm (unat i)"
  by (simp add: bit_is_set_iff bitmap_bit_def)

lemma less_word_succ:
  fixes i n :: u32
  assumes "i < n"
  shows "unat (i + 1) = Suc (unat i)" and "unat i < unat n"
proof -
  from assms have "i \<noteq> - 1"
    by (metis word_order.extremum_strict)
  then show "unat (i + 1) = Suc (unat i)" by (rule unat_succ)
  from assms show "unat i < unat n" by (simp add: word_less_nat_alt)
qed

lemma count_dirty_eq:
  "unat n \<le> 32 * length bm \<Longrightarrow>
   count_dirty bm n i c = Inr (c + of_nat (length (filter (bitmap_bit bm) [unat i..<unat n])))"
proof (induction bm n i c rule: count_dirty.induct)
  case (1 bm n i c)
  show ?case
  proof (cases "i < n")
    case False
    then have "unat n \<le> unat i" by (simp add: word_less_nat_alt)
    with False show ?thesis by (subst count_dirty.simps) simp
  next
    case True
    note s = less_word_succ [OF True]
    from s(2) "1.prems" have inb: "unat i div 32 < length bm" by arith
    then have inb': "unat (i div 32) < length bm" by (simp add: unat_div32)
    from s(2) have upt: "[unat i..<unat n] = unat i # [Suc (unat i)..<unat n]"
      by (simp add: upt_conv_Cons)
    from "1.IH" [OF True inb' "1.prems"] True inb' show ?thesis
      by (subst count_dirty.simps) (simp add: upt s(1) bit_is_set_bitmap_bit [OF inb])
  qed
qed

lemma fill_pages_eq:
  "unat n \<le> 32 * length bm \<Longrightarrow> length pages < 2 ^ 32 \<Longrightarrow>
   unat k + length (filter (bitmap_bit bm) [unat i..<unat n]) \<le> length pages \<Longrightarrow>
   fill_pages bm n i pages k =
     Inr (take (unat k) pages @ map of_nat (filter (bitmap_bit bm) [unat i..<unat n]) @
          drop (unat k + length (filter (bitmap_bit bm) [unat i..<unat n])) pages)"
proof (induction bm n i pages k rule: fill_pages.induct)
  case (1 bm n i pages k)
  show ?case
  proof (cases "i < n")
    case False
    then have "unat n \<le> unat i" by (simp add: word_less_nat_alt)
    with False show ?thesis by (subst fill_pages.simps) simp
  next
    case True
    note s = less_word_succ [OF True]
    from s(2) "1.prems" have inb: "unat i div 32 < length bm" by arith
    then have inb': "unat (i div 32) < length bm" by (simp add: unat_div32)
    from s(2) have upt: "[unat i..<unat n] = unat i # [Suc (unat i)..<unat n]"
      by (simp add: upt_conv_Cons)
    show ?thesis
    proof (cases "bit_is_set bm i")
      case False
      then have nb: "\<not> bitmap_bit bm (unat i)"
        using bit_is_set_bitmap_bit [OF inb] by simp
      from "1.prems" have "unat k + length (filter (bitmap_bit bm) [unat (i + 1)..<unat n]) \<le> length pages"
        by (simp add: upt nb s(1))
      from "1.IH"(2) [OF True inb' False "1.prems"(1,2) this] True inb' False show ?thesis
        by (subst fill_pages.simps) (simp add: upt nb s(1))
    next
      case set: True
      then have b: "bitmap_bit bm (unat i)"
        using bit_is_set_bitmap_bit [OF inb] by simp
      let ?rest = "filter (bitmap_bit bm) [Suc (unat i)..<unat n]"
      from "1.prems" have room: "Suc (unat k) + length ?rest \<le> length pages"
        by (simp add: upt b)
      then have kl: "unat k < length pages" by simp
      with "1.prems"(2) have "k \<noteq> - 1"
        by (auto simp: unsigned_minus_1_eq_mask mask_eq_exp_minus_1)
      then have sk: "unat (k + 1) = Suc (unat k)" by (rule unat_succ)
      have "unat (k + 1) + length (filter (bitmap_bit bm) [unat (i + 1)..<unat n])
            \<le> length (pages[unat k := i])"
        using room by (simp add: sk s(1))
      from "1.IH"(1) [OF True inb' set kl "1.prems"(1) _ this] "1.prems"(2)
      have "fill_pages bm n (i + 1) (pages[unat k := i]) (k + 1) =
            Inr (take (Suc (unat k)) (pages[unat k := i]) @ map of_nat ?rest @
                 drop (Suc (unat k) + length ?rest) (pages[unat k := i]))"
        by (simp add: sk s(1))
      moreover have "take (Suc (unat k)) (pages[unat k := i]) = take (unat k) pages @ [i]"
        using kl by (simp add: take_Suc_conv_app_nth)
      moreover have "drop (Suc (unat k) + length ?rest) (pages[unat k := i])
                     = drop (Suc (unat k) + length ?rest) pages"
        by simp
      ultimately show ?thesis
        using True inb' set kl by (subst fill_pages.simps) (simp add: upt b)
    qed
  qed
qed

lemma unat_of_nat_u32: "j < 2 ^ 32 \<Longrightarrow> unat (of_nat j :: u32) = j"
  by (simp add: unat_of_nat)

lemma dirty_pages_bitmap:
  "dirtyBitmap t = Some bm \<Longrightarrow>
   dirty_pages t = filter (bitmap_bit bm) [0..<unat (totalPages t)]"
  by (auto simp: dirty_pages_def page_dirty_def raw_bit_def intro: filter_cong)

lemma dirty_pages_no_bitmap: "dirtyBitmap t = None \<Longrightarrow> dirty_pages t = []"
  by (simp add: dirty_pages_def page_dirty_def raw_bit_def)

lemma length_dirty_pages: "length (dirty_pages t) \<le> unat (totalPages t)"
  unfolding dirty_pages_def by (rule order_trans [OF length_filter_le]) simp

lemma length_dirty_pages_less: "length (dirty_pages t) < 2 ^ 32"
  using length_dirty_pages [of t] unsigned_less [of "totalPages t", where 'a = nat]
  by simp




lemma count_zero_iff: "(of_nat (length (dirty_pages t)) :: u32) = 0 \<longleftrightarrow> dirty_pages t = []"
proof -
  have "unat (of_nat (length (dirty_pages t)) :: u32) = length (dirty_pages t)"
    using length_dirty_pages_less [of t] by (simp add: unat_of_nat_u32)
  then show ?thesis
    by (metis length_0_conv unat_eq_zero of_nat_0)
qed

text \<open>The two loops of the query on a well-formed tracker.\<close>

lemma scan_bitmap:
  assumes wf: "wf_tracker t" and bm: "dirtyBitmap t = Some bm"
  shows "count_dirty bm (totalPages t) 0 0 = Inr (of_nat (length (dirty_pages t)))"
    and "length pages = length (dirty_pages t) \<Longrightarrow>
         fill_pages bm (totalPages t) 0 pages 0 = Inr (map of_nat (dirty_pages t))"
proof -
  from wf bm have cover: "unat (totalPages t) \<le> 32 * length bm"
    by (simp add: wf_tracker_alt)
  from count_dirty_eq [OF cover, of 0 0] show "count_dirty bm (totalPages t) 0 0 = Inr (of_nat (length (dirty_pages t)))"
    by (simp add: dirty_pages_bitmap [OF bm])
  assume "length pages = length (dirty_pages t)"
  with fill_pages_eq [OF cover, of pages 0 0] length_dirty_pages_less [of t]
  show "fill_pages bm (totalPages t) 0 pages 0 = Inr (map of_nat (dirty_pages t))"
    by (simp add: dirty_pages_bitmap [OF bm])
qed

lemma wf_new_tracker: "wf_tracker (new_tracker a st n)"
  by (simp add: wf_tracker_def new_tracker_def)

lemma wf_state_at: "wf_state st \<Longrightarrow> tracker_at st p = Some t \<Longrightarrow> wf_tracker t"
  by (auto simp: wf_state_def tracker_at_def list_all_length split: if_splits)

lemma wf_state_get_file:
  assumes "wf_state st" and "vfs_tracking_get_file a st fo = Inr (r, st')"
  shows "wf_state st'"
proof (cases fo)
  case None
  with assms show ?thesis by (simp add: vfs_tracking_get_file_def)
next
  case (Some f)
  from assms(2) [unfolded Some] show ?thesis
    by (cases rule: get_file_cases) (use assms(1) in \<open>simp_all add: wf_state_def wf_new_tracker\<close>)
qed

lemma wf_state_put:
  "wf_state st \<Longrightarrow> wf_tracker t \<Longrightarrow> wf_state (tracker_put st p t)"
  by (auto simp: wf_state_def tracker_put_def list_all_length nth_list_update)

lemma named_state_put:
  "named_state st \<Longrightarrow> filename t \<noteq> None \<Longrightarrow> named_state (tracker_put st p t)"
  by (auto simp: named_state_def tracker_put_def list_all_length nth_list_update)

lemma named_state_at: "named_state st \<Longrightarrow> tracker_at st p = Some t \<Longrightarrow> filename t \<noteq> None"
  by (auto simp: named_state_def tracker_at_def list_all_length split: if_splits)

lemma named_state_push:
  "named_state st \<Longrightarrow> strdup_ok a \<Longrightarrow> named_state (st\<lparr>files := new_tracker a st n # files st\<rparr>)"
  by (simp add: named_state_def new_tracker_def)

text \<open>The query, once the tracker is looked up.\<close>

lemma get_dirty_pages_eval:
  assumes g: "vfs_tracking_get_file a st (Some f) = Inr (r, st')" and wf: "wf_state st"
  shows "vfs_tracking_get_dirty_pages a st (Some f) (Some c0) (Some p0) =
     (case r of
        None \<Rightarrow> Inr (SQLITE_OK, Some 0, Some None, st')
      | Some p \<Rightarrow>
          (case tracker_at st' p of
             None \<Rightarrow> Inl DanglingPointer
           | Some t \<Rightarrow>
               if dirty_pages t = [] then Inr (SQLITE_OK, Some 0, Some None, st')
               else if \<not> malloc_ok a then Inr (SQLITE_NOMEM, Some c0, Some p0, st')
               else Inr (SQLITE_OK, Some (of_nat (length (dirty_pages t))),
                         Some (Some (map of_nat (dirty_pages t))), st')))"
proof (cases r)
  case None
  with g show ?thesis by (simp add: vfs_tracking_get_dirty_pages_def)
next
  case (Some p)
  show ?thesis
  proof (cases "tracker_at st' p")
    case None
    with g Some show ?thesis by (simp add: vfs_tracking_get_dirty_pages_def)
  next
    case t: (Some t)
    from wf_state_get_file [OF wf g] t have wft: "wf_tracker t" by (rule wf_state_at)
    show ?thesis
    proof (cases "dirtyBitmap t")
      case None
      with g Some t show ?thesis
        by (simp add: vfs_tracking_get_dirty_pages_def dirty_pages_no_bitmap)
    next
      case bm: (Some bm)
      note sc = scan_bitmap [OF wft bm]
      have len: "unat (of_nat (length (dirty_pages t)) :: u32) = length (dirty_pages t)"
        using length_dirty_pages_less [of t] by (simp add: unat_of_nat_u32)
      from g Some t bm sc(1) sc(2) [of "map (junk a) [0..<length (dirty_pages t)]"] show ?thesis
        by (simp add: vfs_tracking_get_dirty_pages_def count_zero_iff len)
    qed
  qed
qed

section \<open>Named trackers\<close>


lemma named_tracker_Some:
  "named_tracker st f = Some t \<Longrightarrow>
   \<exists>p. search_files (files st) (normalizedName f) = Inr (Some p) \<and> tracker_at st p = Some t"
  by (auto simp: named_tracker_def split: sum.splits option.splits)

lemma named_tracker_search:
  "search_files (files st) (normalizedName f) = Inr (Some p) \<Longrightarrow>
   named_tracker st f = tracker_at st p"
  by (simp add: named_tracker_def)

text \<open>What a lookup does, told through the tracker the name stood for before.\<close>

lemma get_file_named:
  assumes "vfs_tracking_get_file a st (Some f) = Inr (r, st')"
  obtains (found) p t where "named_tracker st f = Some t" "r = Some p" "st' = st"
      "tracker_at st p = Some t" "search_files (files st) (normalizedName f) = Inr (Some p)"
  | (no_memory) "named_tracker st f = None" "\<not> calloc_ok a" "r = None" "st' = st"
  | (created) "named_tracker st f = None" "calloc_ok a" "r = Some (length (files st))"
      "st' = st\<lparr>files := new_tracker a st (normalizedName f) # files st\<rparr>"
      "tracker_at st' (length (files st)) = Some (new_tracker a st (normalizedName f))"
  using assms
proof (cases rule: get_file_cases)
  case (found p t)
  then show ?thesis by (intro that(1) [of t p]) (simp_all add: named_tracker_def)
next
  case no_memory
  then show ?thesis by (intro that(2)) (simp_all add: named_tracker_def)
next
  case created
  then show ?thesis by (intro that(3)) (simp_all add: named_tracker_def)
qed


lemma dirty_pages_new_tracker: "dirty_pages (new_tracker a st n) = []"
  by (simp add: dirty_pages_no_bitmap new_tracker_def)

section \<open>The concrete registry, evaluated\<close>

lemma ex_state2_wf: "wf_state ex_state2"
  by (simp add: wf_state_def ex_state2_def wf_tracker_def ex_tracker_b_def ex_tracker_p0_def)

lemma ex_state2_names: "named_state ex_state2"
  by (simp add: named_state_def ex_state2_def ex_tracker_b_def ex_tracker_p0_def)

lemma ex_state2_named:
  "named_tracker ex_state2 ''/db.sqlite'' = Some ex_tracker_p0"
  "named_tracker ex_state2 ''db.sqlite'' = Some ex_tracker_p0"
  "named_tracker ex_state2 ''b.db'' = Some ex_tracker_b"
  by (simp_all add: named_tracker_def normalizedName_def ex_state2_def tracker_at_def
      ex_tracker_b_def ex_tracker_p0_def)



section \<open>Resetting\<close>

lemma memset0_all: "memset0 bm 0 (length bm) = replicate (length bm) 0"
  by (simp add: memset0_def)

lemma raw_bit_cleared: "\<not> raw_bit (cleared t) j"
  by (cases "dirtyBitmap t") (simp_all add: cleared_def raw_bit_def bitmap_bit_def)

lemma wf_cleared: "wf_tracker t \<Longrightarrow> wf_tracker (cleared t)"
  by (cases "dirtyBitmap t") (simp_all add: cleared_def wf_tracker_def)

lemma cleared_no_bitmap: "dirtyBitmap t = None \<Longrightarrow> cleared t = t"
  by (simp add: cleared_def)

lemma no_raw_bits_no_pages: "(\<And>j. \<not> raw_bit t j) \<Longrightarrow> dirty_pages t = []"
  by (simp add: dirty_pages_def page_dirty_def)

lemma named_tracker_put:
  assumes "search_files (files st) (normalizedName f) = Inr (Some p)" and "tracker_at st p = Some t"
    and "filename t' = filename t"
  shows "named_tracker (tracker_put st p t') f = Some t'"
proof -
  from search_tracker_put [OF assms(2,3)] assms(1)
  have "search_files (files (tracker_put st p t')) (normalizedName f) = Inr (Some p)" by simp
  moreover from tracker_at_Some_valid [OF assms(2)]
  have "tracker_at (tracker_put st p t') p = Some t'" by (rule tracker_at_put_same)
  ultimately show ?thesis by (simp add: named_tracker_def)
qed

text \<open>The reset, once the tracker is looked up.\<close>

lemma reset_dirty_eval:
  assumes g: "vfs_tracking_get_file a st (Some f) = Inr (r, st0)" and wf: "wf_state st"
  shows "vfs_tracking_reset_dirty a st (Some f) =
     Inr (SQLITE_OK,
          case r of None \<Rightarrow> st0
          | Some p \<Rightarrow> (case tracker_at st0 p of None \<Rightarrow> st0
                        | Some t \<Rightarrow> tracker_put st0 p (cleared t)))"
proof (cases r)
  case None
  with g show ?thesis by (simp add: vfs_tracking_reset_dirty_def)
next
  case (Some p)
  from g [unfolded Some] obtain t where t: "tracker_at st0 p = Some t"
    by (rule get_file_valid)
  from wf_state_get_file [OF wf g] t have wft: "wf_tracker t" by (rule wf_state_at)
  show ?thesis
  proof (cases "dirtyBitmap t")
    case None
    with g Some t tracker_put_same [OF t] show ?thesis
      by (simp add: vfs_tracking_reset_dirty_def cleared_no_bitmap)
  next
    case bm: (Some bm)
    with wft have "length bm = unat (bitmapSize t)" by (simp add: wf_tracker_alt)
    with g Some t bm memset0_all [of bm] show ?thesis
      by (simp add: vfs_tracking_reset_dirty_def cleared_def)
  qed
qed

lemma reset_dirty_state:
  assumes wf: "wf_state st" and names: "named_state st"
  shows "vfs_tracking_reset_dirty a st (Some f) =
     Inr (SQLITE_OK,
          case named_tracker st f of
            None \<Rightarrow> if calloc_ok a
                     then st\<lparr>files := new_tracker a st (normalizedName f) # files st\<rparr> else st
          | Some t \<Rightarrow> (case search_files (files st) (normalizedName f) of
                          Inr (Some p) \<Rightarrow> tracker_put st p (cleared t) | _ \<Rightarrow> st))"
proof -
  from get_file_returns [OF names] obtain r st0
    where g: "vfs_tracking_get_file a st (Some f) = Inr (r, st0)"
    by blast
  note ev = reset_dirty_eval [OF g wf]
  from g show ?thesis
  proof (cases rule: get_file_named)
    case (found p t)
    with ev show ?thesis by simp
  next
    case no_memory
    with ev show ?thesis by simp
  next
    case created
    have "cleared (new_tracker a st (normalizedName f)) = new_tracker a st (normalizedName f)"
      by (simp add: cleared_no_bitmap new_tracker_def)
    with created ev tracker_put_same [OF created(5)] show ?thesis by simp
  qed
qed

lemma get_dirty_pages_clean:
  assumes wf: "wf_state st" and names: "named_state st"
    and clean: "\<And>t. named_tracker st f = Some t \<Longrightarrow> dirty_pages t = []"
  shows "vfs_tracking_get_dirty_pages a st (Some f) (Some c0) (Some p0) =
     Inr (SQLITE_OK, Some 0, Some None,
          if named_tracker st f = None \<and> calloc_ok a
          then st\<lparr>files := new_tracker a st (normalizedName f) # files st\<rparr> else st)"
proof -
  from get_file_returns [OF names] obtain r st0
    where g: "vfs_tracking_get_file a st (Some f) = Inr (r, st0)"
    by blast
  note ev = get_dirty_pages_eval [OF g wf, of c0 p0]
  from g show ?thesis
  proof (cases rule: get_file_named)
    case (found p t)
    with ev clean [of t] show ?thesis by simp
  next
    case no_memory
    with ev show ?thesis by simp
  next
    case created
    with ev show ?thesis by (simp add: dirty_pages_new_tracker)
  qed
qed


lemma mark_dirty_at_ok:
  assumes at: "tracker_at st q = Some t"
    and md: "vfs_tracking_mark_dirty a (Some t) offset amount = Inr (Some t')"
  shows "mark_dirty_at a st (Some q) offset amount = Inr (tracker_put st q t')"
  using assms by (simp add: mark_dirty_at_def)


section \<open>Initialisation\<close>

text \<open>
  C1 (as amended). An initialised registry answers \<open>SQLITE_OK\<close> whatever the name and
  changes nothing. An uninitialised one answers \<open>SQLITE_ERROR\<close>, the code this
  implementation uses for a missing base backend, and changes nothing when the name does
  not resolve; when the name resolves it answers with the result of the registration,
  which is \<open>SQLITE_OK\<close> or the registration's failure code.
\<close>

theorem init_status:
  "(pRealVfs st \<noteq> None \<longrightarrow> vfs_tracking_init host (st, tv) name pg = (SQLITE_OK, st, tv)) \<and>
   (pRealVfs st = None \<and> vfs_find host name = None \<longrightarrow>
      vfs_tracking_init host (st, tv) name pg = (SQLITE_ERROR, st, tv)) \<and>
   (pRealVfs st = None \<and> vfs_find host name \<noteq> None \<longrightarrow>
      fst (vfs_tracking_init host (st, tv) name pg) = vfs_register_rc host)"
  by (auto simp: vfs_tracking_init_def Let_def split: option.splits)

theorem init_status_witness:
  "vfs_tracking_init ex_host (ex_state, ex_tv) (Some ''nowhere'') 4096 = (SQLITE_OK, ex_state, ex_tv) \<and>
   vfs_tracking_init ex_host (ex_state0, ex_tv) (Some ''nowhere'') 4096 = (SQLITE_ERROR, ex_state0, ex_tv) \<and>
   fst (vfs_tracking_init ex_host (ex_state0, ex_tv) (Some ''memfs'') 4096) = 0 \<and>
   fst (vfs_tracking_init (ex_host\<lparr>vfs_register_rc := 7\<rparr>) (ex_state0, ex_tv) (Some ''memfs'') 4096) = 7"
  using init_status [of ex_state ex_host ex_tv "Some ''nowhere''" 4096]
    init_status [of ex_state0 ex_host ex_tv "Some ''nowhere''" 4096]
    init_status [of ex_state0 ex_host ex_tv "Some ''memfs''" 4096]
    init_status [of ex_state0 "ex_host\<lparr>vfs_register_rc := 7\<rparr>" ex_tv "Some ''memfs''" 4096]
  by (simp add: ex_state_def ex_state0_def ex_host_def)

text \<open>
  C1 as stated fails: on a registry that is already initialised, a name that resolves to
  no backend gets \<open>SQLITE_OK\<close>, not the error code.
\<close>

theorem init_not_found_counterexample:
  "vfs_find ex_host (Some ''nowhere'') = None \<and>
   fst (vfs_tracking_init ex_host (ex_state, ex_tv) (Some ''nowhere'') 4096) = SQLITE_OK \<and>
   SQLITE_OK \<noteq> SQLITE_ERROR"
  by (simp add: vfs_tracking_init_def ex_state_def ex_host_def SQLITE_OK_def SQLITE_ERROR_def)

section \<open>Marking\<close>

text \<open>
  C8. When the mark needs more bitmap storage and \<open>realloc\<close> refuses, the call returns
  with the tracker exactly as it was: \<open>totalPages\<close>, \<open>bitmapSize\<close>, the bitmap and all
  its bits.
\<close>

theorem mark_dirty_alloc_failure:
  assumes "pageSize t \<noteq> 0" and "0 < sint amount"
    and "sint offset + sint amount \<le> 2 ^ 63 - 1"
    and "totalPages t < endPage_of t offset amount + 1"
    and "bitmapSize t < (endPage_of t offset amount + 1 + 31) div 32"
    and "\<not> realloc_ok a"
  shows "vfs_tracking_mark_dirty a (Some t) offset amount = Inr (Some t)"
  using assms
  by (simp add: vfs_tracking_mark_dirty_def mark_dirty_body_def ensure_capacity_def Let_def)

theorem mark_dirty_alloc_failure_witness:
  "pageSize ex_tracker \<noteq> 0 \<and> 0 < sint (10 :: c_int) \<and>
   sint (0 :: i64) + sint (10 :: c_int) \<le> 2 ^ 63 - 1 \<and>
   totalPages ex_tracker < endPage_of ex_tracker 0 10 + 1 \<and>
   bitmapSize ex_tracker < (endPage_of ex_tracker 0 10 + 1 + 31) div 32 \<and>
   \<not> realloc_ok ex_no_mem \<and>
   vfs_tracking_mark_dirty ex_no_mem (Some ex_tracker) 0 10 = Inr (Some ex_tracker)"
proof -
  have h: "pageSize ex_tracker \<noteq> 0" "0 < sint (10 :: c_int)"
    "sint (0 :: i64) + sint (10 :: c_int) \<le> 2 ^ 63 - 1"
    "totalPages ex_tracker < endPage_of ex_tracker 0 10 + 1"
    "bitmapSize ex_tracker < (endPage_of ex_tracker 0 10 + 1 + 31) div 32"
    "\<not> realloc_ok ex_no_mem"
    by (simp_all add: ex_tracker_def ex_no_mem_def endPage_of_def sdiv_trunc_def)
  from h mark_dirty_alloc_failure [OF h] show ?thesis by blast
qed

text \<open>
  C2 (as amended). For a well-formed tracker with a non-zero page size, an offset \<open>\<ge> 0\<close>
  and a length \<open>> 0\<close> whose sum fits a signed 64-bit integer and whose last page index
  \<open>floor((offset + length - 1) / pageSize)\<close> is below \<open>2^32 - 32\<close>, and with an allocator
  that grants the growth, \<open>markDirty\<close> returns and afterwards a page is dirty exactly when
  it was dirty before or its index lies in
  \<open>[floor(offset / pageSize), floor((offset + length - 1) / pageSize)]\<close>; the tracker stays
  well-formed and keeps its name, page size and open flag. For a length \<open>\<le> 0\<close> or a
  \<open>NULL\<close> tracker nothing changes.
\<close>

theorem mark_dirty_range:
  "(wf_tracker t \<and> realloc_ok a \<and> pageSize t \<noteq> 0 \<and> 0 \<le> sint offset \<and> 0 < sint amount \<and>
    sint offset + sint amount \<le> 2 ^ 63 - 1 \<and>
    (sint offset + sint amount - 1) div uint (pageSize t) < 2 ^ 32 - 32 \<longrightarrow>
      (\<exists>t'. vfs_tracking_mark_dirty a (Some t) offset amount = Inr (Some t') \<and> wf_tracker t' \<and>
         (\<forall>j. page_dirty t' j \<longleftrightarrow>
               page_dirty t j \<or>
               (sint offset div uint (pageSize t) \<le> int j \<and>
                int j \<le> (sint offset + sint amount - 1) div uint (pageSize t))) \<and>
         filename t' = filename t \<and> pageSize t' = pageSize t \<and> isOpen t' = isOpen t)) \<and>
   (sint amount \<le> 0 \<longrightarrow> vfs_tracking_mark_dirty a (Some t) offset amount = Inr (Some t)) \<and>
   vfs_tracking_mark_dirty a None offset amount = Inr None"
proof (intro conjI impI)
  assume h: "wf_tracker t \<and> realloc_ok a \<and> pageSize t \<noteq> 0 \<and> 0 \<le> sint offset \<and> 0 < sint amount \<and>
    sint offset + sint amount \<le> 2 ^ 63 - 1 \<and>
    (sint offset + sint amount - 1) div uint (pageSize t) < 2 ^ 32 - 32"
  let ?S = "sint offset div uint (pageSize t)"
  let ?E = "(sint offset + sint amount - 1) div uint (pageSize t)"
  from h have pn: "unat (startPage_of t offset) = nat ?S" "unat (endPage_of t offset amount) = nat ?E"
    "0 \<le> ?S" "?S \<le> ?E"
    using page_numbers [of t offset amount] by simp_all
  from pn h have room: "unat (endPage_of t offset amount) + 32 < 2 ^ 32"
    by (simp add: nat_less_iff)
  from pn have ord: "unat (startPage_of t offset) \<le> unat (endPage_of t offset amount)" by simp
  from h mark_dirty_body_ok [OF _ _ _ _ room ord, of a]
  obtain t' where t': "mark_dirty_body a t offset amount = Inr t'" "wf_tracker t'"
    "\<And>j. page_dirty t' j \<longleftrightarrow> page_dirty t j \<or>
          (unat (startPage_of t offset) \<le> j \<and> j \<le> unat (endPage_of t offset amount))"
    "filename t' = filename t" "pageSize t' = pageSize t" "isOpen t' = isOpen t"
    by blast
  have rng: "(nat ?S \<le> j \<and> j \<le> nat ?E) \<longleftrightarrow> (?S \<le> int j \<and> int j \<le> ?E)" for j
    using pn(3,4) by auto
  have "vfs_tracking_mark_dirty a (Some t) offset amount = Inr (Some t')"
    using h t'(1) by (simp add: vfs_tracking_mark_dirty_def)
  with t' pn(1,2) rng
  show "\<exists>t'. vfs_tracking_mark_dirty a (Some t) offset amount = Inr (Some t') \<and> wf_tracker t' \<and>
         (\<forall>j. page_dirty t' j \<longleftrightarrow> page_dirty t j \<or> (?S \<le> int j \<and> int j \<le> ?E)) \<and>
         filename t' = filename t \<and> pageSize t' = pageSize t \<and> isOpen t' = isOpen t"
    by (intro exI [of _ t']) simp
next
  assume "sint amount \<le> 0"
  then show "vfs_tracking_mark_dirty a (Some t) offset amount = Inr (Some t)"
    by (simp add: vfs_tracking_mark_dirty_def)
next
  show "vfs_tracking_mark_dirty a None offset amount = Inr None"
    by (simp add: vfs_tracking_mark_dirty_def)
qed

theorem mark_dirty_range_witness:
  "wf_tracker ex_tracker_p0 \<and> realloc_ok ex_alloc \<and> pageSize ex_tracker_p0 \<noteq> 0 \<and>
   0 \<le> sint (4090 :: i64) \<and> 0 < sint (20 :: c_int) \<and>
   sint (4090 :: i64) + sint (20 :: c_int) \<le> 2 ^ 63 - 1 \<and>
   (sint (4090 :: i64) + sint (20 :: c_int) - 1) div uint (pageSize ex_tracker_p0) < 2 ^ 32 - 32 \<and>
   vfs_tracking_mark_dirty ex_alloc (Some ex_tracker_p0) 4090 20 = Inr (Some ex_tracker_p01) \<and>
   page_dirty ex_tracker_p01 0 \<and> page_dirty ex_tracker_p01 1 \<and> \<not> page_dirty ex_tracker_p01 2 \<and>
   sint (0 :: c_int) \<le> 0 \<and>
   vfs_tracking_mark_dirty ex_alloc (Some ex_tracker_p0) 4090 0 = Inr (Some ex_tracker_p0) \<and>
   vfs_tracking_mark_dirty ex_alloc None 4090 20 = Inr None"
proof -
  have h: "wf_tracker ex_tracker_p0 \<and> realloc_ok ex_alloc \<and> pageSize ex_tracker_p0 \<noteq> 0 \<and>
    0 \<le> sint (4090 :: i64) \<and> 0 < sint (20 :: c_int) \<and>
    sint (4090 :: i64) + sint (20 :: c_int) \<le> 2 ^ 63 - 1 \<and>
    (sint (4090 :: i64) + sint (20 :: c_int) - 1) div uint (pageSize ex_tracker_p0) < 2 ^ 32 - 32"
    by (simp add: wf_tracker_def ex_tracker_p0_def ex_alloc_def)
  have ev: "vfs_tracking_mark_dirty ex_alloc (Some ex_tracker_p0) 4090 20 = Inr (Some ex_tracker_p01)"
    by code_simp
  have pg: "sint (4090 :: i64) div uint (pageSize ex_tracker_p0) = 0"
    "(sint (4090 :: i64) + sint (20 :: c_int) - 1) div uint (pageSize ex_tracker_p0) = 1"
    by (simp_all add: ex_tracker_p0_def)
  have before: "page_dirty ex_tracker_p0 0" "\<not> page_dirty ex_tracker_p0 2"
    by (simp_all add: page_dirty_def raw_bit_def bitmap_bit_def ex_tracker_p0_def)
  note t = mark_dirty_range [of ex_tracker_p0 ex_alloc 4090 20]
  from t h ev pg have "\<forall>j. page_dirty ex_tracker_p01 j \<longleftrightarrow> page_dirty ex_tracker_p0 j \<or> (0 \<le> int j \<and> int j \<le> 1)"
    by simp
  then have "page_dirty ex_tracker_p01 0" "page_dirty ex_tracker_p01 1" "\<not> page_dirty ex_tracker_p01 2"
    using before by simp_all
  moreover have "sint (0 :: c_int) \<le> 0" by simp
  moreover from mark_dirty_range [of ex_tracker_p0 ex_alloc 4090 0]
  have "vfs_tracking_mark_dirty ex_alloc (Some ex_tracker_p0) 4090 0 = Inr (Some ex_tracker_p0)"
    "vfs_tracking_mark_dirty ex_alloc None 4090 20 = Inr None"
    using mark_dirty_range [of ex_tracker_p0 ex_alloc 4090 20] by simp_all
  ultimately show ?thesis using h ev by simp
qed

text \<open>
  C2 as stated fails for large offsets: page indices are 32-bit, so with 4096-byte pages a
  one-byte mark at offset \<open>2^44\<close>, whose page index is \<open>2^32\<close>, marks page 0 instead.
\<close>

theorem mark_dirty_range_counterexample:
  "wf_tracker ex_tracker \<and> 0 \<le> sint (0x100000000000 :: i64) \<and> 0 < sint (1 :: c_int) \<and>
   sint (0x100000000000 :: i64) div uint (pageSize ex_tracker) = 4294967296 \<and>
   (sint (0x100000000000 :: i64) + sint (1 :: c_int) - 1) div uint (pageSize ex_tracker) = 4294967296 \<and>
   vfs_tracking_mark_dirty ex_alloc (Some ex_tracker) 0x100000000000 1 = Inr (Some ex_tracker_p0) \<and>
   \<not> page_dirty ex_tracker 0 \<and> page_dirty ex_tracker_p0 0 \<and> \<not> page_dirty ex_tracker_p0 4294967296"
proof -
  have "vfs_tracking_mark_dirty ex_alloc (Some ex_tracker) 0x100000000000 1 = Inr (Some ex_tracker_p0)"
    by code_simp
  then show ?thesis
    by (simp add: wf_tracker_def page_dirty_def raw_bit_def bitmap_bit_def ex_tracker_def ex_tracker_p0_def)
qed




section \<open>Isolation\<close>

text \<open>
  C10. Every operation leaves the other trackers of the registry as they were, with all
  their fields: a lookup or creation keeps every existing tracker; a mark through a
  tracker pointer and a close of a handle keep every tracker but the one pointed to; a
  reset and an open by name keep every tracker whose name is not the normalized name.
\<close>

theorem tracker_isolation:
  "(vfs_tracking_get_file a st fname_opt = Inr (r, st') \<and> tracker_at st q = Some t
      \<longrightarrow> tracker_at st' q = Some t) \<and>
   (mark_dirty_at a st (Some p) offset amount = Inr st' \<and> q \<noteq> p
      \<longrightarrow> tracker_at st' q = tracker_at st q) \<and>
   (vfs_tracking_reset_dirty a st (Some f) = Inr (rc, st') \<and> tracker_at st q = Some t \<and>
    filename t \<noteq> Some (normalizedName f)
      \<longrightarrow> tracker_at st' q = Some t) \<and>
   (trackingOpen a st (Some f) real_rc h = Inr (rc, h', st') \<and> tracker_at st q = Some t \<and>
    filename t \<noteq> Some (normalizedName f)
      \<longrightarrow> tracker_at st' q = Some t) \<and>
   (fileClose st h real_rc = Inr (rc, st') \<and> pTracker h \<noteq> Some q
      \<longrightarrow> tracker_at st' q = tracker_at st q)"
proof (intro conjI impI)
  assume "vfs_tracking_get_file a st fname_opt = Inr (r, st') \<and> tracker_at st q = Some t"
  then show "tracker_at st' q = Some t" using get_file_keeps by blast
next
  assume "mark_dirty_at a st (Some p) offset amount = Inr st' \<and> q \<noteq> p"
  then show "tracker_at st' q = tracker_at st q" using mark_dirty_at_frame by blast
next
  assume "vfs_tracking_reset_dirty a st (Some f) = Inr (rc, st') \<and> tracker_at st q = Some t \<and>
    filename t \<noteq> Some (normalizedName f)"
  then show "tracker_at st' q = Some t" using reset_dirty_frame by blast
next
  assume h: "trackingOpen a st (Some f) real_rc h = Inr (rc, h', st') \<and> tracker_at st q = Some t \<and>
    filename t \<noteq> Some (normalizedName f)"
  with trackingOpen_frame [of a st "Some f" real_rc h rc h' st' q t]
  show "tracker_at st' q = Some t" by auto
next
  assume "fileClose st h real_rc = Inr (rc, st') \<and> pTracker h \<noteq> Some q"
  then show "tracker_at st' q = tracker_at st q" using fileClose_frame by blast
qed

theorem tracker_isolation_witness:
  "tracker_at ex_state2 1 = Some ex_tracker_b \<and>
   filename ex_tracker_b \<noteq> Some (normalizedName ''/db.sqlite'') \<and>
   pTracker ex_file \<noteq> Some 1 \<and>
   vfs_tracking_get_file ex_alloc ex_state2 (Some ''new.db'') = Inr (Some 2, ex_state3) \<and>
   tracker_at ex_state3 1 = Some ex_tracker_b \<and>
   mark_dirty_at ex_alloc ex_state2 (Some 0) 409600 10 = Inr (tracker_put ex_state2 0 ex_tracker_p100) \<and>
   tracker_at (tracker_put ex_state2 0 ex_tracker_p100) 1 = Some ex_tracker_b \<and>
   vfs_tracking_reset_dirty ex_alloc ex_state2 (Some ''/db.sqlite'') =
     Inr (SQLITE_OK, tracker_put ex_state2 0 (ex_tracker_p0\<lparr>dirtyBitmap := Some [0]\<rparr>)) \<and>
   tracker_at (tracker_put ex_state2 0 (ex_tracker_p0\<lparr>dirtyBitmap := Some [0]\<rparr>)) 1 = Some ex_tracker_b \<and>
   trackingOpen ex_alloc ex_state2 (Some ''/db.sqlite'') SQLITE_OK ex_file =
     Inr (SQLITE_OK, ex_file, ex_state2) \<and>
   fileClose ex_state2 ex_file SQLITE_OK = Inr (SQLITE_OK, tracker_put ex_state2 0 (ex_tracker_p0\<lparr>isOpen := 0\<rparr>)) \<and>
   tracker_at (tracker_put ex_state2 0 (ex_tracker_p0\<lparr>isOpen := 0\<rparr>)) 1 = Some ex_tracker_b"
proof -
  have at: "tracker_at ex_state2 1 = Some ex_tracker_b"
    by (simp add: tracker_at_def ex_state2_def)
  have nm: "filename ex_tracker_b \<noteq> Some (normalizedName ''/db.sqlite'')"
    by (simp add: ex_tracker_b_def normalizedName_def)
  have hd: "pTracker ex_file \<noteq> Some 1" by (simp add: ex_file_def)
  have g: "vfs_tracking_get_file ex_alloc ex_state2 (Some ''new.db'') = Inr (Some 2, ex_state3)"
    by code_simp
  have m: "mark_dirty_at ex_alloc ex_state2 (Some 0) 409600 10 = Inr (tracker_put ex_state2 0 ex_tracker_p100)"
    by code_simp
  have rs: "vfs_tracking_reset_dirty ex_alloc ex_state2 (Some ''/db.sqlite'') =
     Inr (SQLITE_OK, tracker_put ex_state2 0 (ex_tracker_p0\<lparr>dirtyBitmap := Some [0]\<rparr>))"
    by code_simp
  have op: "trackingOpen ex_alloc ex_state2 (Some ''/db.sqlite'') SQLITE_OK ex_file =
     Inr (SQLITE_OK, ex_file, ex_state2)"
    by code_simp
  have cl: "fileClose ex_state2 ex_file SQLITE_OK =
     Inr (SQLITE_OK, tracker_put ex_state2 0 (ex_tracker_p0\<lparr>isOpen := 0\<rparr>))"
    by code_simp
  from tracker_isolation [where a = ex_alloc and st = ex_state2 and fname_opt = "Some ''new.db''"
      and r = "Some 2" and st' = ex_state3 and q = 1 and t = ex_tracker_b] g at
  have 1: "tracker_at ex_state3 1 = Some ex_tracker_b"
    by simp
  from tracker_isolation [where a = ex_alloc and st = ex_state2 and p = 0 and offset = 409600
      and amount = 10 and st' = "tracker_put ex_state2 0 ex_tracker_p100" and q = 1] m at
  have 2: "tracker_at (tracker_put ex_state2 0 ex_tracker_p100) 1 = Some ex_tracker_b"
    by simp
  from tracker_isolation [where a = ex_alloc and st = ex_state2 and f = "''/db.sqlite''"
      and rc = SQLITE_OK and q = 1 and t = ex_tracker_b
      and st' = "tracker_put ex_state2 0 (ex_tracker_p0\<lparr>dirtyBitmap := Some [0]\<rparr>)"] rs at nm
  have 3: "tracker_at (tracker_put ex_state2 0 (ex_tracker_p0\<lparr>dirtyBitmap := Some [0]\<rparr>)) 1 = Some ex_tracker_b"
    by simp
  from tracker_isolation [where a = ex_alloc and st = ex_state2 and f = "''/db.sqlite''"
      and rc = SQLITE_OK and real_rc = SQLITE_OK and q = 1 and t = ex_tracker_b
      and h = ex_file and h' = ex_file and st' = ex_state2] op at nm
  have 5: "tracker_at ex_state2 1 = Some ex_tracker_b"
    by simp
  from tracker_isolation [where st = ex_state2 and h = ex_file and real_rc = SQLITE_OK
      and rc = SQLITE_OK and q = 1
      and st' = "tracker_put ex_state2 0 (ex_tracker_p0\<lparr>isOpen := 0\<rparr>)"] cl hd at
  have 4: "tracker_at (tracker_put ex_state2 0 (ex_tracker_p0\<lparr>isOpen := 0\<rparr>)) 1 = Some ex_tracker_b"
    by simp
  from at nm hd g 1 m 2 rs 3 op cl 4 show ?thesis by blast
qed


section \<open>Querying\<close>







section \<open>Resetting the dirty state\<close>

text \<open>
  C5 (as amended). On a registry of well-formed trackers that all hold their name, and
  with the copy of the name granted whenever a tracker is created, for a non-null file
  name \<open>resetDirty\<close> answers \<open>SQLITE_OK\<close>. If the name has a tracker, afterwards the
  name stands for the same tracker at the same address with every word of its bitmap zero
  and \<open>totalPages\<close>, \<open>pageSize\<close>, \<open>bitmapSize\<close>, the storage length, the name and the
  open flag unchanged; without a bitmap the state is unchanged. If the name has no
  tracker, a fresh one is pushed (nothing changes when its allocation fails). In every
  case no bit of the name's tracker is set afterwards and an immediately following
  \<open>getDirtyPages\<close> reports the empty sequence. A null file name gets \<open>SQLITE_ERROR\<close>.
\<close>

theorem reset_dirty_clears:
  assumes "wf_state st" and "named_state st"
    and "named_tracker st f = None \<and> calloc_ok a \<longrightarrow> strdup_ok a"
  shows "(\<exists>st'. vfs_tracking_reset_dirty a st (Some f) = Inr (SQLITE_OK, st')) \<and>
    (\<forall>rc st'. vfs_tracking_reset_dirty a st (Some f) = Inr (rc, st') \<longrightarrow>
       rc = SQLITE_OK \<and> wf_state st' \<and> named_state st' \<and>
       (case named_tracker st f of
          None \<Rightarrow>
            st' = (if calloc_ok a then st\<lparr>files := new_tracker a st (normalizedName f) # files st\<rparr>
                   else st)
        | Some t \<Rightarrow>
            named_tracker st' f = Some (cleared t) \<and>
            search_files (files st') (normalizedName f) = search_files (files st) (normalizedName f) \<and>
            length (files st') = length (files st) \<and>
            (dirtyBitmap t = None \<longrightarrow> st' = st)) \<and>
       (\<forall>t' j. named_tracker st' f = Some t' \<longrightarrow> \<not> raw_bit t' j) \<and>
       vfs_tracking_get_dirty_pages a' st' (Some f) (Some c0) (Some p0) =
         Inr (SQLITE_OK, Some 0, Some None,
              if named_tracker st' f = None \<and> calloc_ok a'
              then st'\<lparr>files := new_tracker a' st' (normalizedName f) # files st'\<rparr> else st')) \<and>
    vfs_tracking_reset_dirty a st None = Inr (SQLITE_ERROR, st)"
proof -
  let ?n = "normalizedName f"
  let ?new = "new_tracker a st ?n"
  let ?st' = "case named_tracker st f of
            None \<Rightarrow> if calloc_ok a then st\<lparr>files := ?new # files st\<rparr> else st
          | Some t \<Rightarrow> (case search_files (files st) ?n of
                          Inr (Some p) \<Rightarrow> tracker_put st p (cleared t) | _ \<Rightarrow> st)"
  note rs = reset_dirty_state [OF assms(1,2), of a f]
  have null: "vfs_tracking_reset_dirty a st None = Inr (SQLITE_ERROR, st)"
    by (simp add: vfs_tracking_reset_dirty_def)
  have props: "wf_state ?st' \<and> named_state ?st' \<and>
       (case named_tracker st f of
          None \<Rightarrow> ?st' = (if calloc_ok a then st\<lparr>files := ?new # files st\<rparr> else st)
        | Some t \<Rightarrow>
            named_tracker ?st' f = Some (cleared t) \<and>
            search_files (files ?st') ?n = search_files (files st) ?n \<and>
            length (files ?st') = length (files st) \<and>
            (dirtyBitmap t = None \<longrightarrow> ?st' = st)) \<and>
       (\<forall>t' j. named_tracker ?st' f = Some t' \<longrightarrow> \<not> raw_bit t' j)"
  proof (cases "named_tracker st f")
    case None
    from search_files_returns [of "files st" ?n] assms(2) obtain s
      where s0: "search_files (files st) ?n = Inr s"
      by (auto simp: named_state_def)
    have s: "search_files (files st) ?n = Inr None"
    proof (cases s)
      case None
      with s0 show ?thesis by simp
    next
      case (Some p)
      with s0 search_tracker_at [of st ?n p] None show ?thesis
        by (auto simp: named_tracker_def)
    qed
    show ?thesis
    proof (cases "calloc_ok a")
      case True
      with None assms(3) have sd: "strdup_ok a" by simp
      with s have "named_tracker (st\<lparr>files := ?new # files st\<rparr>) f = Some ?new"
        by (simp add: named_tracker_def new_tracker_def tracker_at_push)
      moreover have "\<not> raw_bit ?new j" for j by (simp add: raw_bit_def new_tracker_def)
      moreover have "wf_state (st\<lparr>files := ?new # files st\<rparr>)"
        using assms(1) by (simp add: wf_state_def wf_new_tracker)
      moreover have "named_state (st\<lparr>files := ?new # files st\<rparr>)"
        using assms(2) sd by (rule named_state_push)
      ultimately show ?thesis using None True by simp
    next
      case False
      with None assms(1,2) show ?thesis by simp
    qed
  next
    case (Some t)
    from named_tracker_Some [OF Some] obtain p
      where s: "search_files (files st) ?n = Inr (Some p)" and t: "tracker_at st p = Some t"
      by blast
    have fn: "filename (cleared t) = filename t" by (simp add: cleared_def)
    from named_tracker_put [OF s t fn]
    have nt: "named_tracker (tracker_put st p (cleared t)) f = Some (cleared t)" .
    from search_tracker_put [OF t fn, of ?n]
    have "search_files (files (tracker_put st p (cleared t))) ?n = search_files (files st) ?n" .
    moreover have "wf_state (tracker_put st p (cleared t))"
      using assms(1) wf_state_at [OF assms(1) t] by (intro wf_state_put wf_cleared)
    moreover have "named_state (tracker_put st p (cleared t))"
      using assms(2) named_state_at [OF assms(2) t] fn by (intro named_state_put) simp_all
    moreover have "dirtyBitmap t = None \<longrightarrow> tracker_put st p (cleared t) = st"
      using tracker_put_same [OF t] by (simp add: cleared_no_bitmap)
    ultimately show ?thesis
      using Some s nt by (simp add: files_tracker_put raw_bit_cleared)
  qed
  then have wf': "wf_state ?st'" and names': "named_state ?st'"
    and clean: "\<And>t'. named_tracker ?st' f = Some t' \<Longrightarrow> dirty_pages t' = []"
    by (auto intro: no_raw_bits_no_pages)
  note q = get_dirty_pages_clean [OF wf' names' clean, where a = a' and ?c0.0 = c0 and ?p0.0 = p0]
  from rs props q null show ?thesis
    by (intro conjI allI impI exI [of _ ?st']) (simp_all only: sum.inject prod.inject, simp_all)
qed

theorem reset_dirty_clears_witness:
  "wf_state ex_state2 \<and> named_state ex_state2 \<and>
   vfs_tracking_reset_dirty ex_alloc ex_state2 (Some ''/db.sqlite'') = Inr (SQLITE_OK, ex_state_reset) \<and>
   named_tracker ex_state2 ''/db.sqlite'' = Some ex_tracker_p0 \<and>
   named_tracker ex_state_reset ''/db.sqlite'' = Some (cleared ex_tracker_p0) \<and>
   cleared ex_tracker_p0 = ex_tracker_p0\<lparr>dirtyBitmap := Some [0]\<rparr> \<and>
   \<not> raw_bit (cleared ex_tracker_p0) 0 \<and>
   length (files ex_state_reset) = length (files ex_state2) \<and>
   vfs_tracking_get_dirty_pages ex_alloc ex_state_reset (Some ''/db.sqlite'') (Some 7) (Some (Some [9])) =
     Inr (SQLITE_OK, Some 0, Some None, ex_state_reset) \<and>
   vfs_tracking_reset_dirty ex_alloc ex_state2 None = Inr (SQLITE_ERROR, ex_state2) \<and>
   named_tracker ex_state2 ''b.db'' = Some ex_tracker_b \<and> dirtyBitmap ex_tracker_b = None \<and>
   vfs_tracking_reset_dirty ex_alloc ex_state2 (Some ''b.db'') = Inr (SQLITE_OK, ex_state2) \<and>
   wf_state ex_state \<and> named_state ex_state \<and> named_tracker ex_state ''db.sqlite'' = None \<and>
   \<not> calloc_ok ex_no_mem \<and> strdup_ok ex_alloc \<and>
   vfs_tracking_reset_dirty ex_no_mem ex_state (Some ''db.sqlite'') = Inr (SQLITE_OK, ex_state) \<and>
   vfs_tracking_reset_dirty ex_alloc ex_state (Some ''db.sqlite'') = Inr (SQLITE_OK, ex_state0f)"
proof -
  have wf0: "wf_state ex_state" by (simp add: wf_state_def ex_state_def)
  have nm0: "named_state ex_state" by (simp add: named_state_def ex_state_def)
  have n0: "named_tracker ex_state ''db.sqlite'' = None"
    by (simp add: named_tracker_def ex_state_def)
  have al: "\<not> calloc_ok ex_no_mem" "strdup_ok ex_alloc"
    by (simp_all add: ex_no_mem_def ex_alloc_def)
  have nb: "dirtyBitmap ex_tracker_b = None" by (simp add: ex_tracker_b_def)
  have fr: "ex_state\<lparr>files := new_tracker ex_alloc ex_state (normalizedName ''db.sqlite'') # files ex_state\<rparr>
            = ex_state0f"
    by (simp add: ex_state_def ex_state0f_def ex_fresh_def new_tracker_def normalizedName_def ex_alloc_def)
  have h2: "named_tracker ex_state2 f = None \<and> calloc_ok ex_alloc \<longrightarrow> strdup_ok ex_alloc" for f
    using al by simp
  have h0: "named_tracker ex_state ''db.sqlite'' = None \<and> calloc_ok a \<longrightarrow> strdup_ok a"
    if "\<not> calloc_ok a \<or> strdup_ok a" for a
    using that by auto
  note tb = reset_dirty_clears [OF ex_state2_wf ex_state2_names h2, where f = "''b.db''"]
  from tb obtain s1 where s1: "vfs_tracking_reset_dirty ex_alloc ex_state2 (Some ''b.db'') = Inr (SQLITE_OK, s1)"
    by blast
  from tb [where a' = ex_alloc and ?c0.0 = 0 and ?p0.0 = None, THEN conjunct2, THEN conjunct1,
      rule_format, OF s1] nb
  have "s1 = ex_state2" by (simp add: ex_state2_named)
  with s1 have r1: "vfs_tracking_reset_dirty ex_alloc ex_state2 (Some ''b.db'') = Inr (SQLITE_OK, ex_state2)"
    by simp
  note tn = reset_dirty_clears [OF wf0 nm0 h0, where a = ex_no_mem, OF disjI1, OF al(1)]
  from tn obtain s2 where s2: "vfs_tracking_reset_dirty ex_no_mem ex_state (Some ''db.sqlite'') = Inr (SQLITE_OK, s2)"
    by blast
  from tn [where a' = ex_alloc and ?c0.0 = 0 and ?p0.0 = None, THEN conjunct2, THEN conjunct1,
      rule_format, OF s2]
  have "s2 = ex_state" by (simp add: n0 ex_no_mem_def)
  with s2 have r2: "vfs_tracking_reset_dirty ex_no_mem ex_state (Some ''db.sqlite'') = Inr (SQLITE_OK, ex_state)"
    by simp
  note ta = reset_dirty_clears [OF wf0 nm0 h0, where a = ex_alloc, OF disjI2, OF al(2)]
  from ta obtain s3 where s3: "vfs_tracking_reset_dirty ex_alloc ex_state (Some ''db.sqlite'') = Inr (SQLITE_OK, s3)"
    by blast
  from ta [where a' = ex_alloc and ?c0.0 = 0 and ?p0.0 = None, THEN conjunct2, THEN conjunct1,
      rule_format, OF s3]
  have "s3 = ex_state0f" by (simp add: n0 ex_alloc_def fr [unfolded ex_alloc_def])
  with s3 have r3: "vfs_tracking_reset_dirty ex_alloc ex_state (Some ''db.sqlite'') = Inr (SQLITE_OK, ex_state0f)"
    by simp
  have ev: "vfs_tracking_reset_dirty ex_alloc ex_state2 (Some ''/db.sqlite'') = Inr (SQLITE_OK, ex_state_reset)"
    by code_simp
  have cl: "cleared ex_tracker_p0 = ex_tracker_p0\<lparr>dirtyBitmap := Some [0]\<rparr>"
    by (simp add: cleared_def ex_tracker_p0_def)
  note t = reset_dirty_clears [OF ex_state2_wf ex_state2_names h2, where f = "''/db.sqlite''"
      and a' = ex_alloc and ?c0.0 = 7 and ?p0.0 = "Some [9]"]
  from t have null: "vfs_tracking_reset_dirty ex_alloc ex_state2 None = Inr (SQLITE_ERROR, ex_state2)"
    by blast
  from t [THEN conjunct2, THEN conjunct1, rule_format, OF ev]
  have "named_tracker ex_state_reset ''/db.sqlite'' = Some (cleared ex_tracker_p0)"
    "length (files ex_state_reset) = length (files ex_state2)"
    "\<not> raw_bit (cleared ex_tracker_p0) 0"
    "vfs_tracking_get_dirty_pages ex_alloc ex_state_reset (Some ''/db.sqlite'') (Some 7) (Some (Some [9])) =
     Inr (SQLITE_OK, Some 0, Some None, ex_state_reset)"
    by (simp_all add: ex_state2_named)
  with ex_state2_wf ex_state2_names ev cl null r1 r2 r3 wf0 nm0 n0 nb al show ?thesis
    by (simp add: ex_state2_named)
qed

text \<open>
  C5 as stated fails in its last part: for a file name without a tracker the reset is not
  a no-op, it inserts a fresh tracker into the registry.
\<close>

theorem reset_dirty_not_noop_counterexample:
  "named_tracker ex_state ''db.sqlite'' = None \<and>
   vfs_tracking_reset_dirty ex_alloc ex_state (Some ''db.sqlite'') =
     Inr (SQLITE_OK, ex_state\<lparr>files := [ex_fresh]\<rparr>) \<and>
   ex_state\<lparr>files := [ex_fresh]\<rparr> \<noteq> ex_state"
proof -
  have "vfs_tracking_reset_dirty ex_alloc ex_state (Some ''db.sqlite'') =
     Inr (SQLITE_OK, ex_state\<lparr>files := [ex_fresh]\<rparr>)"
    by code_simp
  moreover have "files (ex_state\<lparr>files := [ex_fresh]\<rparr>) \<noteq> files ex_state"
    by (simp add: ex_state_def)
  then have "ex_state\<lparr>files := [ex_fresh]\<rparr> \<noteq> ex_state" by metis
  ultimately show ?thesis
    by (simp add: named_tracker_def ex_state_def)
qed

section \<open>Truncation\<close>

text \<open>
  C7 (as amended). For a handle with a well-formed tracker of non-zero page size and a new
  size \<open>\<ge> 0\<close> below \<open>2^63 - 1\<close> whose page index \<open>floor(newSize / pageSize)\<close> is below
  \<open>2^32 - 32\<close>, with an allocator that grants the growth, a successful truncate returns
  the backend's \<open>SQLITE_OK\<close> and afterwards a page of the handle's tracker is dirty exactly
  when it was dirty before or it is the page \<open>floor(newSize / pageSize)\<close>; every other
  tracker is unchanged. When the delegated truncate fails or the handle has no tracker,
  the result is the backend's and the tracking state is unchanged.
\<close>

theorem truncate_marks_page:
  "(real_rc = SQLITE_OK \<and> pTracker h = Some q \<and> tracker_at st q = Some t \<and> wf_tracker t \<and>
    realloc_ok a \<and> pageSize t \<noteq> 0 \<and> 0 \<le> sint newSize \<and> sint newSize + 1 \<le> 2 ^ 63 - 1 \<and>
    sint newSize div uint (pageSize t) < 2 ^ 32 - 32 \<longrightarrow>
      (\<exists>st'. fileTruncate a st h newSize real_rc = Inr (SQLITE_OK, st')) \<and>
      (\<forall>rc st'. fileTruncate a st h newSize real_rc = Inr (rc, st') \<longrightarrow>
         rc = SQLITE_OK \<and>
         (\<exists>t'. tracker_at st' q = Some t' \<and> wf_tracker t' \<and>
               (\<forall>j. page_dirty t' j \<longleftrightarrow>
                     page_dirty t j \<or> int j = sint newSize div uint (pageSize t))) \<and>
         (\<forall>q'. q' \<noteq> q \<longrightarrow> tracker_at st' q' = tracker_at st q'))) \<and>
   (real_rc \<noteq> SQLITE_OK \<or> pTracker h = None \<longrightarrow>
      fileTruncate a st h newSize real_rc = Inr (real_rc, st))"
proof (intro conjI impI)
  assume "real_rc \<noteq> SQLITE_OK \<or> pTracker h = None"
  then show "fileTruncate a st h newSize real_rc = Inr (real_rc, st)"
    by (auto simp: fileTruncate_def)
next
  assume h: "real_rc = SQLITE_OK \<and> pTracker h = Some q \<and> tracker_at st q = Some t \<and> wf_tracker t \<and>
    realloc_ok a \<and> pageSize t \<noteq> 0 \<and> 0 \<le> sint newSize \<and> sint newSize + 1 \<le> 2 ^ 63 - 1 \<and>
    sint newSize div uint (pageSize t) < 2 ^ 32 - 32"
  let ?P = "sint newSize div uint (pageSize t)"
  have one: "sint (1 :: c_int) = 1" by simp
  from h have pn: "unat (startPage_of t newSize) = nat ?P" "unat (endPage_of t newSize 1) = nat ?P"
    "0 \<le> ?P"
    using page_numbers [of t newSize 1] by (simp_all add: one)
  from pn h have room: "unat (endPage_of t newSize 1) + 32 < 2 ^ 32"
    by (simp add: nat_less_iff)
  from pn have ord: "unat (startPage_of t newSize) \<le> unat (endPage_of t newSize 1)" by simp
  from h have nov: "sint newSize + sint (1 :: c_int) \<le> 2 ^ 63 - 1" by (simp add: one)
  from h mark_dirty_body_ok [OF _ _ _ nov room ord, of a]
  obtain t' where t': "mark_dirty_body a t newSize 1 = Inr t'" "wf_tracker t'"
    "\<And>j. page_dirty t' j \<longleftrightarrow> page_dirty t j \<or>
          (unat (startPage_of t newSize) \<le> j \<and> j \<le> unat (endPage_of t newSize 1))"
    by blast
  have pd: "page_dirty t' j \<longleftrightarrow> page_dirty t j \<or> int j = ?P" for j
    using t'(3) [of j] pn by auto
  have "vfs_tracking_mark_dirty a (Some t) newSize 1 = Inr (Some t')"
    using t'(1) by (simp add: vfs_tracking_mark_dirty_def)
  with h have "mark_dirty_at a st (Some q) newSize 1 = Inr (tracker_put st q t')"
    by (intro mark_dirty_at_ok) simp_all
  with h have res: "fileTruncate a st h newSize real_rc = Inr (SQLITE_OK, tracker_put st q t')"
    by (simp add: fileTruncate_def)
  from h have valid: "q < length (files st)" using tracker_at_Some_valid by blast
  show "\<exists>st'. fileTruncate a st h newSize real_rc = Inr (SQLITE_OK, st')"
    using res by blast
  show "\<forall>rc st'. fileTruncate a st h newSize real_rc = Inr (rc, st') \<longrightarrow>
         rc = SQLITE_OK \<and>
         (\<exists>t'. tracker_at st' q = Some t' \<and> wf_tracker t' \<and>
               (\<forall>j. page_dirty t' j \<longleftrightarrow> page_dirty t j \<or> int j = ?P)) \<and>
         (\<forall>q'. q' \<noteq> q \<longrightarrow> tracker_at st' q' = tracker_at st q')"
    using res t'(2) pd valid by (auto simp: tracker_at_put_same tracker_at_put_other)
qed

theorem truncate_marks_page_witness:
  "pTracker ex_file = Some 0 \<and> tracker_at ex_state2 0 = Some ex_tracker_p0 \<and>
   wf_tracker ex_tracker_p0 \<and> realloc_ok ex_alloc \<and> pageSize ex_tracker_p0 \<noteq> 0 \<and>
   0 \<le> sint (8192 :: i64) \<and> sint (8192 :: i64) + 1 \<le> 2 ^ 63 - 1 \<and>
   sint (8192 :: i64) div uint (pageSize ex_tracker_p0) = 2 \<and>
   fileTruncate ex_alloc ex_state2 ex_file 8192 SQLITE_OK = Inr (SQLITE_OK, ex_state2_p02) \<and>
   tracker_at ex_state2_p02 0 = Some ex_tracker_p02 \<and>
   page_dirty ex_tracker_p02 0 \<and> \<not> page_dirty ex_tracker_p02 1 \<and> page_dirty ex_tracker_p02 2 \<and>
   tracker_at ex_state2_p02 1 = tracker_at ex_state2 1 \<and>
   fileTruncate ex_alloc ex_state2 ex_file 8192 SQLITE_ERROR = Inr (SQLITE_ERROR, ex_state2) \<and>
   fileTruncate ex_alloc ex_state2 ex_anonymous 8192 SQLITE_OK = Inr (SQLITE_OK, ex_state2)"
proof -
  have hy: "SQLITE_OK = SQLITE_OK \<and> pTracker ex_file = Some 0 \<and> tracker_at ex_state2 0 = Some ex_tracker_p0 \<and>
    wf_tracker ex_tracker_p0 \<and> realloc_ok ex_alloc \<and> pageSize ex_tracker_p0 \<noteq> 0 \<and>
    0 \<le> sint (8192 :: i64) \<and> sint (8192 :: i64) + 1 \<le> 2 ^ 63 - 1 \<and>
    sint (8192 :: i64) div uint (pageSize ex_tracker_p0) < 2 ^ 32 - 32"
    by (simp add: ex_file_def tracker_at_def ex_state2_def wf_tracker_def ex_tracker_p0_def ex_alloc_def)
  have pg: "sint (8192 :: i64) div uint (pageSize ex_tracker_p0) = 2"
    by (simp add: ex_tracker_p0_def)
  have ev: "fileTruncate ex_alloc ex_state2 ex_file 8192 SQLITE_OK = Inr (SQLITE_OK, ex_state2_p02)"
    by code_simp
  have at: "tracker_at ex_state2_p02 0 = Some ex_tracker_p02"
    by (simp add: tracker_at_def ex_state2_p02_def)
  have before: "page_dirty ex_tracker_p0 0" "\<not> page_dirty ex_tracker_p0 1"
    by (simp_all add: page_dirty_def raw_bit_def bitmap_bit_def ex_tracker_p0_def)
  note t = truncate_marks_page [where real_rc = SQLITE_OK and h = ex_file and q = 0 and st = ex_state2
      and t = ex_tracker_p0 and a = ex_alloc and newSize = 8192]
  from t hy have "\<forall>rc st'. fileTruncate ex_alloc ex_state2 ex_file 8192 SQLITE_OK = Inr (rc, st') \<longrightarrow>
         rc = SQLITE_OK \<and>
         (\<exists>t'. tracker_at st' 0 = Some t' \<and> wf_tracker t' \<and>
               (\<forall>j. page_dirty t' j \<longleftrightarrow>
                     page_dirty ex_tracker_p0 j \<or> int j = sint (8192 :: i64) div uint (pageSize ex_tracker_p0))) \<and>
         (\<forall>q'. q' \<noteq> 0 \<longrightarrow> tracker_at st' q' = tracker_at ex_state2 q')"
    by blast
  from this [rule_format, OF ev] at pg
  have pd: "\<forall>j. page_dirty ex_tracker_p02 j \<longleftrightarrow> page_dirty ex_tracker_p0 j \<or> int j = 2"
    and other: "tracker_at ex_state2_p02 1 = tracker_at ex_state2 1"
    by simp_all
  from pd before have "page_dirty ex_tracker_p02 0" "\<not> page_dirty ex_tracker_p02 1" "page_dirty ex_tracker_p02 2"
    by simp_all
  moreover from truncate_marks_page [where real_rc = SQLITE_ERROR and h = ex_file and st = ex_state2
      and a = ex_alloc and newSize = 8192]
  have "fileTruncate ex_alloc ex_state2 ex_file 8192 SQLITE_ERROR = Inr (SQLITE_ERROR, ex_state2)"
    by (simp add: SQLITE_ERROR_def SQLITE_OK_def)
  moreover from truncate_marks_page [where real_rc = SQLITE_OK and h = ex_anonymous and st = ex_state2
      and a = ex_alloc and newSize = 8192]
  have "fileTruncate ex_alloc ex_state2 ex_anonymous 8192 SQLITE_OK = Inr (SQLITE_OK, ex_state2)"
    by (simp add: ex_anonymous_def)
  ultimately show ?thesis using hy pg ev at other by simp
qed

text \<open>
  C7 as stated fails for large sizes: with 4096-byte pages a truncate to \<open>2^44\<close> bytes,
  whose page index is \<open>2^32\<close>, marks page 0.
\<close>

theorem truncate_marks_page_counterexample:
  "pTracker ex_file = Some 0 \<and> tracker_at ex_state1 0 = Some ex_tracker \<and> wf_tracker ex_tracker \<and>
   0 \<le> sint (0x100000000000 :: i64) \<and>
   sint (0x100000000000 :: i64) div uint (pageSize ex_tracker) = 4294967296 \<and>
   fileTruncate ex_alloc ex_state1 ex_file 0x100000000000 SQLITE_OK = Inr (SQLITE_OK, ex_state1_p0) \<and>
   tracker_at ex_state1_p0 0 = Some ex_tracker_p0 \<and>
   \<not> page_dirty ex_tracker 0 \<and> page_dirty ex_tracker_p0 0 \<and> \<not> page_dirty ex_tracker_p0 4294967296"
proof -
  have "fileTruncate ex_alloc ex_state1 ex_file 0x100000000000 SQLITE_OK = Inr (SQLITE_OK, ex_state1_p0)"
    by code_simp
  then show ?thesis
    by (simp add: ex_file_def tracker_at_def ex_state1_def ex_state1_p0_def wf_tracker_def
        page_dirty_def raw_bit_def bitmap_bit_def ex_tracker_def ex_tracker_p0_def)
qed


section \<open>One tracker per normalized name\<close>

text \<open>
  Two file names with the same normalized name (equal after stripping one leading slash)
  get the same result from a lookup. Once a lookup or a successful open under one name
  has given a tracker that holds its name, a lookup under the other name gives that same
  tracker and changes nothing, whatever the allocator does. Opening and closing change
  nothing of any tracker but its open flag, and a close leaves the search for every name
  as it was: what is marked through a handle opened under one name is read back under the
  other, across open and close, until a reset.
\<close>

lemma same_name_same_tracker:
  assumes "normalizedName f1 = normalizedName f2"
  shows "vfs_tracking_get_file a st (Some f1) = vfs_tracking_get_file a st (Some f2) \<and>
    (vfs_tracking_get_file a st (Some f1) = Inr (Some p, st1) \<and>
     tracker_at st1 p = Some t \<and> filename t \<noteq> None
       \<longrightarrow> vfs_tracking_get_file a' st1 (Some f2) = Inr (Some p, st1)) \<and>
    (trackingOpen a st (Some f1) SQLITE_OK h = Inr (rc, h', st2) \<and> pTracker h' = Some p \<and>
     tracker_at st2 p = Some t \<and> filename t \<noteq> None
       \<longrightarrow> vfs_tracking_get_file a' st2 (Some f2) = Inr (Some p, st2)) \<and>
    (trackingOpen a st zName real_rc h = Inr (rc, h', st2) \<and> tracker_at st q = Some t
       \<longrightarrow> (\<exists>v. tracker_at st2 q = Some (t\<lparr>isOpen := v\<rparr>))) \<and>
    (fileClose st h real_rc = Inr (rc, st3) \<and> tracker_at st q = Some t
       \<longrightarrow> (\<exists>v. tracker_at st3 q = Some (t\<lparr>isOpen := v\<rparr>)) \<and>
           search_files (files st3) (normalizedName f2) = search_files (files st) (normalizedName f2))"
proof (intro conjI impI)
  show "vfs_tracking_get_file a st (Some f1) = vfs_tracking_get_file a st (Some f2)"
    by (simp only: vfs_tracking_get_file_def option.case assms)
next
  assume "vfs_tracking_get_file a st (Some f1) = Inr (Some p, st1) \<and>
     tracker_at st1 p = Some t \<and> filename t \<noteq> None"
  then show "vfs_tracking_get_file a' st1 (Some f2) = Inr (Some p, st1)"
    using assms get_file_again by blast
next
  assume h: "trackingOpen a st (Some f1) SQLITE_OK h = Inr (rc, h', st2) \<and> pTracker h' = Some p \<and>
     tracker_at st2 p = Some t \<and> filename t \<noteq> None"
  then have "trackingOpen a st (Some f1) SQLITE_OK h = Inr (rc, h', st2)" by simp
  then show "vfs_tracking_get_file a' st2 (Some f2) = Inr (Some p, st2)"
  proof (cases rule: trackingOpen_cases)
    case untracked
    then show ?thesis by simp
  next
    case (no_tracker f)
    with h show ?thesis by simp
  next
    case (tracked f q st0 u)
    with h have q: "q = p" and f: "f = f1" by simp_all
    from tracked(5,6) h q tracker_at_Some_valid [OF tracked(5)] have "t = u\<lparr>isOpen := 1\<rparr>"
      by (simp add: tracker_at_put_same)
    with h have "filename u \<noteq> None" by simp
    from get_file_search [OF tracked(4,5) this]
    have "search_files (files st0) (normalizedName f) = Inr (Some q)" .
    with search_tracker_put [OF tracked(5), of "u\<lparr>isOpen := 1\<rparr>" "normalizedName f"] tracked(6)
    have "search_files (files st2) (normalizedName f2) = Inr (Some p)"
      using q f assms by simp
    then show ?thesis by (rule search_get_file)
  qed
next
  assume "trackingOpen a st zName real_rc h = Inr (rc, h', st2) \<and> tracker_at st q = Some t"
  then show "\<exists>v. tracker_at st2 q = Some (t\<lparr>isOpen := v\<rparr>)"
    using trackingOpen_frame by blast
next
  assume "fileClose st h real_rc = Inr (rc, st3) \<and> tracker_at st q = Some t"
  then show "\<exists>v. tracker_at st3 q = Some (t\<lparr>isOpen := v\<rparr>)"
    using fileClose_frame by blast
next
  assume "fileClose st h real_rc = Inr (rc, st3) \<and> tracker_at st q = Some t"
  then have "fileClose st h real_rc = Inr (rc, st3)" by simp
  from fileClose_search [OF this]
  show "search_files (files st3) (normalizedName f2) = search_files (files st) (normalizedName f2)"
    by simp
qed


text \<open>
  C6 fails on the code when the copy of the name cannot be allocated. The two names
  \<open>/db.sqlite\<close> and \<open>db.sqlite\<close> have the same normalized name. On the empty registry a
  lookup under the first, with the node granted and the copy of the name refused, links
  and returns a tracker whose name is \<open>NULL\<close>. The lookup under the second name then does
  not return that tracker: its search hands the \<open>NULL\<close> name to \<open>strcmp\<close>. So do a
  repeated lookup under the first name and an open under either name. With the copy
  granted, both names give the tracker at the same address.
\<close>

theorem same_name_lookup_null_name:
  "normalizedName ''/db.sqlite'' = normalizedName ''db.sqlite'' \<and>
   calloc_ok ex_no_strdup \<and>
   vfs_tracking_get_file ex_no_strdup ex_state (Some ''/db.sqlite'') = Inr (Some 0, ex_state_nameless) \<and>
   tracker_at ex_state_nameless 0 = Some ex_nameless \<and> filename ex_nameless = None \<and>
   vfs_tracking_get_file ex_alloc ex_state_nameless (Some ''db.sqlite'') = Inl NullDeref \<and>
   vfs_tracking_get_file ex_alloc ex_state_nameless (Some ''/db.sqlite'') = Inl NullDeref \<and>
   trackingOpen ex_alloc ex_state_nameless (Some ''db.sqlite'') SQLITE_OK ex_anonymous = Inl NullDeref \<and>
   vfs_tracking_get_file ex_alloc ex_state (Some ''/db.sqlite'') = Inr (Some 0, ex_state0f) \<and>
   vfs_tracking_get_file ex_alloc ex_state0f (Some ''db.sqlite'') = Inr (Some 0, ex_state0f)"
proof -
  have "normalizedName ''/db.sqlite'' = normalizedName ''db.sqlite''"
    by (simp add: normalizedName_def)
  moreover have "calloc_ok ex_no_strdup"
    by (simp add: ex_no_strdup_def)
  moreover have "vfs_tracking_get_file ex_no_strdup ex_state (Some ''/db.sqlite'') =
      Inr (Some 0, ex_state_nameless)"
    by code_simp
  moreover have "tracker_at ex_state_nameless 0 = Some ex_nameless" "filename ex_nameless = None"
    by (simp_all add: tracker_at_def ex_state_nameless_def ex_nameless_def)
  moreover have "vfs_tracking_get_file ex_alloc ex_state_nameless (Some ''db.sqlite'') = Inl NullDeref"
    by code_simp
  moreover have "vfs_tracking_get_file ex_alloc ex_state_nameless (Some ''/db.sqlite'') = Inl NullDeref"
    by code_simp
  moreover have "trackingOpen ex_alloc ex_state_nameless (Some ''db.sqlite'') SQLITE_OK ex_anonymous =
      Inl NullDeref"
    by code_simp
  moreover have "vfs_tracking_get_file ex_alloc ex_state (Some ''/db.sqlite'') = Inr (Some 0, ex_state0f)"
    by code_simp
  moreover have "vfs_tracking_get_file ex_alloc ex_state0f (Some ''db.sqlite'') = Inr (Some 0, ex_state0f)"
    by code_simp
  ultimately show ?thesis by simp
qed

end
